theory Spec2Isabelle
  imports Complex_Main "HOL-Library.Product_Lexorder"
begin

section \<open>Conventions of the embedding\<close>

text \<open>
  The Python sources of \<^verbatim>\<open>lidar_tracker\<close> are embedded function by function.
  Python \<^verbatim>\<open>float\<close> values are modelled by \<^typ>\<open>real\<close>: rounding, overflow and NaN are
  outside the model. The one non-finite value the code itself creates, \<^verbatim>\<open>np.inf\<close> in the
  background array, is a constructor of its own. Python \<^verbatim>\<open>int\<close> is \<^typ>\<open>int\<close>; list
  positions are \<^typ>\<open>nat\<close>. Exceptions are values of type \<open>py_error\<close>.
\<close>

datatype py_error = ZeroDivisionError | ValueError | OverflowError | IndexError

text \<open>\<^verbatim>\<open>int(x)\<close> on a float truncates towards zero.\<close>

definition py_int :: "real \<Rightarrow> int" where
  "py_int x = (if 0 \<le> x then \<lfloor>x\<rfloor> else \<lceil>x\<rceil>)"

section \<open>types.py\<close>

record PolarPoint =
  angle_deg :: real
  distance_mm :: real

record CartesianPoint =
  px :: real
  py :: real

record Cluster =
  centroid :: CartesianPoint
  points :: "CartesianPoint list"
  bounding_radius_mm :: real

record TrackedObject =
  object_id :: int
  obj_centroid :: CartesianPoint
  obj_velocity :: CartesianPoint
  obj_bounding_radius_mm :: real
  obj_age :: int
  obj_points :: "CartesianPoint list"

record TrajectoryPoint =
  tp_x :: real
  tp_y :: real
  tp_frame_number :: int
  tp_timestamp :: "real option"

record TrackingFrame =
  frame_number :: int
  objects :: "TrackedObject list"
  timestamp :: "real option"

section \<open>background.py\<close>

text \<open>An entry of the \<^verbatim>\<open>_background\<close> array: \<^verbatim>\<open>np.inf\<close> until the bin is seeded.\<close>

datatype bgval = Inf | Fin real

record BackgroundModel =
  num_bins :: int
  learning_rate :: real
  threshold :: real
  min_frames :: int
  bin_width :: real
  background :: "bgval list"
  bin_counts :: "int list"
  bm_frame_count :: int

text \<open>
  \<^verbatim>\<open>__init__\<close>: \<^verbatim>\<open>360.0 / angle_bins\<close> raises for \<^verbatim>\<open>angle_bins = 0\<close>, and
  \<^verbatim>\<open>np.full(angle_bins, np.inf)\<close> raises for a negative dimension.
\<close>

definition BackgroundModel_init :: "int \<Rightarrow> real \<Rightarrow> real \<Rightarrow> int \<Rightarrow> py_error + BackgroundModel" where
  "BackgroundModel_init angle_bins lr foreground_threshold_mm min_learning_frames =
     (if angle_bins = 0 then Inl ZeroDivisionError
      else if angle_bins < 0 then Inl ValueError
      else Inr \<lparr> num_bins = angle_bins, learning_rate = lr,
                 threshold = foreground_threshold_mm, min_frames = min_learning_frames,
                 bin_width = 360 / real_of_int angle_bins,
                 background = replicate (nat angle_bins) Inf,
                 bin_counts = replicate (nat angle_bins) 0,
                 bm_frame_count = 0 \<rparr>)"

definition angle_to_bin :: "BackgroundModel \<Rightarrow> real \<Rightarrow> int" where
  "angle_to_bin m a = py_int (a / bin_width m) mod num_bins m"

text \<open>
  One iteration of the loop of \<^verbatim>\<open>update\<close>. For an entry that is still \<^verbatim>\<open>inf\<close> the
  test \<^verbatim>\<open>p.distance_mm >= inf - threshold\<close> is false for every finite distance.
\<close>

definition update_point :: "PolarPoint \<Rightarrow> BackgroundModel \<Rightarrow> BackgroundModel" where
  "update_point p m =
     (let b = nat (angle_to_bin m (angle_deg p));
          bg = background m;
          bg' = (if bin_counts m ! b = 0 then bg[b := Fin (distance_mm p)]
                 else (case bg ! b of
                         Inf \<Rightarrow> bg
                       | Fin v \<Rightarrow>
                           if distance_mm p \<ge> v - threshold m
                           then bg[b := Fin (v + learning_rate m * (distance_mm p - v))]
                           else bg))
      in m\<lparr> background := bg',
             bin_counts := (bin_counts m)[b := bin_counts m ! b + 1] \<rparr>)"

definition bm_update :: "PolarPoint list \<Rightarrow> BackgroundModel \<Rightarrow> BackgroundModel" where
  "bm_update ps m =
     (let m' = fold update_point ps m
      in m'\<lparr> bm_frame_count := bm_frame_count m' + 1 \<rparr>)"

definition is_ready :: "BackgroundModel \<Rightarrow> bool" where
  "is_ready m \<longleftrightarrow> bm_frame_count m \<ge> min_frames m"

definition is_foreground :: "BackgroundModel \<Rightarrow> PolarPoint \<Rightarrow> bool" where
  "is_foreground m p =
     (case background m ! nat (angle_to_bin m (angle_deg p)) of
        Inf \<Rightarrow> False
      | Fin bg_dist \<Rightarrow> bg_dist - distance_mm p > threshold m)"

definition classify :: "BackgroundModel \<Rightarrow> PolarPoint list \<Rightarrow> PolarPoint list" where
  "classify m ps = (if \<not> is_ready m then [] else filter (is_foreground m) ps)"

definition bm_reset :: "BackgroundModel \<Rightarrow> BackgroundModel" where
  "bm_reset m = m\<lparr> background := map (\<lambda>_. Inf) (background m),
                   bin_counts := map (\<lambda>_. 0) (bin_counts m),
                   bm_frame_count := 0 \<rparr>"

text \<open>The shape of a constructed model; \<^verbatim>\<open>update\<close> and \<^verbatim>\<open>reset\<close> keep it.\<close>

definition bm_wf :: "BackgroundModel \<Rightarrow> bool" where
  "bm_wf m \<longleftrightarrow> 1 \<le> num_bins m \<and> length (background m) = nat (num_bins m)
              \<and> length (bin_counts m) = nat (num_bins m)"

section \<open>Auxiliary notions for the background model\<close>

text \<open>
  A scan is bin-consistent when any two of its points that fall into the same angular bin
  report the same range.
\<close>

definition bin_consistent :: "BackgroundModel \<Rightarrow> PolarPoint list \<Rightarrow> bool" where
  "bin_consistent m S \<longleftrightarrow>
     (\<forall>p \<in> set S. \<forall>q \<in> set S.
        angle_to_bin m (angle_deg p) = angle_to_bin m (angle_deg q)
          \<longrightarrow> distance_mm p = distance_mm q)"

text \<open>Every seeded background entry is the range of a point of \<open>S\<close> in that bin.\<close>

definition learned_from :: "PolarPoint list \<Rightarrow> BackgroundModel \<Rightarrow> bool" where
  "learned_from S m \<longleftrightarrow>
     (\<forall>b < length (background m). \<forall>v. background m ! b = Fin v \<longrightarrow>
        (\<exists>q \<in> set S. nat (angle_to_bin m (angle_deg q)) = b \<and> v = distance_mm q))"

text \<open>Example values: two points of one bin (bin 180 of 720) at different ranges.\<close>

definition two_range_scan :: "PolarPoint list" where
  "two_range_scan = [\<lparr>angle_deg = 90, distance_mm = 5000\<rparr>, \<lparr>angle_deg = 90.2, distance_mm = 2000\<rparr>]"

definition fresh_model :: BackgroundModel where
  "fresh_model = \<lparr> num_bins = 720, learning_rate = 0.02, threshold = 150, min_frames = 2,
       bin_width = 360 / 720, background = replicate 720 Inf, bin_counts = replicate 720 0,
       bm_frame_count = 0 \<rparr>"

definition static_scan :: "PolarPoint list" where
  "static_scan = [\<lparr>angle_deg = 90, distance_mm = 5000\<rparr>, \<lparr>angle_deg = 180, distance_mm = 4000\<rparr>]"

definition lenient_model :: BackgroundModel where
  "lenient_model = \<lparr> num_bins = 720, learning_rate = 0.02, threshold = 300, min_frames = 2,
       bin_width = 360 / 720, background = replicate 720 Inf, bin_counts = replicate 720 0,
       bm_frame_count = 0 \<rparr>"

text \<open>The new value of one background entry, as \<^verbatim>\<open>update\<close> computes it.\<close>

definition next_bg :: "real \<Rightarrow> real \<Rightarrow> int \<Rightarrow> real \<Rightarrow> bgval \<Rightarrow> bgval" where
  "next_bg lr T c d e =
     (if c = 0 then Fin d
      else (case e of Inf \<Rightarrow> Inf
            | Fin v \<Rightarrow> if d \<ge> v - T then Fin (v + lr * (d - v)) else Fin v))"

text \<open>
  The foreground cut-off \<open>bg - threshold\<close> of the second entry is not above that of the
  first; entries are seeded together.
\<close>

definition cutoff_le :: "real \<Rightarrow> real \<Rightarrow> bgval \<Rightarrow> bgval \<Rightarrow> bool" where
  "cutoff_le T1 T2 e1 e2 =
     (case e1 of Inf \<Rightarrow> e2 = Inf
      | Fin v1 \<Rightarrow> (case e2 of Inf \<Rightarrow> False | Fin v2 \<Rightarrow> v2 - T2 \<le> v1 - T1))"

text \<open>Two models fed the same scans, differing in their thresholds only.\<close>

definition same_history :: "BackgroundModel \<Rightarrow> BackgroundModel \<Rightarrow> bool" where
  "same_history m1 m2 \<longleftrightarrow>
     bm_wf m1 \<and> num_bins m2 = num_bins m1 \<and> bin_width m2 = bin_width m1
     \<and> learning_rate m2 = learning_rate m1 \<and> min_frames m2 = min_frames m1
     \<and> bm_frame_count m2 = bm_frame_count m1 \<and> bin_counts m2 = bin_counts m1
     \<and> length (background m2) = length (background m1)
     \<and> (\<forall>b < length (background m1).
           cutoff_le (threshold m1) (threshold m2) (background m1 ! b) (background m2 ! b))"

section \<open>trajectory.py\<close>

text \<open>
  \<^verbatim>\<open>collections.deque(maxlen=...)\<close>: \<^verbatim>\<open>append\<close> adds on the right and, when the length
  then exceeds \<^verbatim>\<open>maxlen\<close>, removes one element on the left.
\<close>

record deque =
  maxlen :: "nat option"
  items :: "TrajectoryPoint list"

definition deque_new :: "nat option \<Rightarrow> deque" where
  "deque_new ml = \<lparr> maxlen = ml, items = [] \<rparr>"

definition deque_append :: "deque \<Rightarrow> TrajectoryPoint \<Rightarrow> deque" where
  "deque_append d x =
     (let ys = items d @ [x]
      in d\<lparr> items := (case maxlen d of
                          None \<Rightarrow> ys
                        | Some n \<Rightarrow> if length ys > n then tl ys else ys) \<rparr>)"

record TrajectoryStore =
  max_length :: int
  trajectories :: "int \<rightharpoonup> deque"

definition TrajectoryStore_init :: "int \<Rightarrow> TrajectoryStore" where
  "TrajectoryStore_init max_trajectory_length =
     \<lparr> max_length = max_trajectory_length, trajectories = Map.empty \<rparr>"

definition ts_record :: "TrajectoryStore \<Rightarrow> int \<Rightarrow> real \<Rightarrow> real \<Rightarrow> int \<Rightarrow> real option \<Rightarrow> TrajectoryStore" where
  "ts_record s oid x y fn ts =
     (let d = (case trajectories s oid of
                 None \<Rightarrow> deque_new (if max_length s > 0 then Some (nat (max_length s)) else None)
               | Some d \<Rightarrow> d)
      in s\<lparr> trajectories := (trajectories s)(oid \<mapsto>
              deque_append d \<lparr> tp_x = x, tp_y = y, tp_frame_number = fn, tp_timestamp = ts \<rparr>) \<rparr>)"

definition ts_get :: "TrajectoryStore \<Rightarrow> int \<Rightarrow> TrajectoryPoint list" where
  "ts_get s oid = (case trajectories s oid of None \<Rightarrow> [] | Some d \<Rightarrow> items d)"

text \<open>A \<^verbatim>\<open>record\<close> call with its arguments, and a sequence of such calls.\<close>

type_synonym record_call = "int \<times> real \<times> real \<times> int \<times> real option"

definition call_point :: "record_call \<Rightarrow> TrajectoryPoint" where
  "call_point c = (case c of (oid, x, y, fn, ts) \<Rightarrow>
     \<lparr> tp_x = x, tp_y = y, tp_frame_number = fn, tp_timestamp = ts \<rparr>)"

definition do_record :: "record_call \<Rightarrow> TrajectoryStore \<Rightarrow> TrajectoryStore" where
  "do_record c s = (case c of (oid, x, y, fn, ts) \<Rightarrow> ts_record s oid x y fn ts)"

text \<open>The points recorded for one id by a sequence of calls, in call order.\<close>

definition recorded_for :: "int \<Rightarrow> record_call list \<Rightarrow> TrajectoryPoint list" where
  "recorded_for oid cs = map call_point (filter (\<lambda>c. fst c = oid) cs)"

text \<open>Every deque of the store was created with the bound of the store.\<close>

definition store_inv :: "TrajectoryStore \<Rightarrow> bool" where
  "store_inv s \<longleftrightarrow>
     (\<forall>oid d. trajectories s oid = Some d \<longrightarrow>
        maxlen d = (if max_length s > 0 then Some (nat (max_length s)) else None))"

text \<open>Example value: three calls for object 7.\<close>

definition three_calls :: "record_call list" where
  "three_calls = [(7, 1, 1, 0, None), (7, 2, 2, 1, None), (7, 3, 3, 2, None)]"

section \<open>tracker.py\<close>

record Track =
  track_id :: int
  t_centroid :: CartesianPoint
  t_velocity :: CartesianPoint
  t_bounding_radius_mm :: real
  t_points :: "CartesianPoint list"
  age :: int
  missing_frames :: int
  confirmed :: bool

record ObjectTracker =
  max_match_dist :: real
  max_missing :: int
  min_confirm :: int
  next_id :: int
  tracks :: "Track list"

definition ObjectTracker_init :: "real \<Rightarrow> int \<Rightarrow> int \<Rightarrow> ObjectTracker" where
  "ObjectTracker_init max_match_distance_mm max_missing_frames min_confirm_frames =
     \<lparr> max_match_dist = max_match_distance_mm, max_missing = max_missing_frames,
       min_confirm = min_confirm_frames, next_id = 1, tracks = [] \<rparr>"

text \<open>
  \<^verbatim>\<open>_assign\<close>. An entry of the cost matrix is \<open>None\<close> where the source leaves \<^verbatim>\<open>np.inf\<close>
  (the pair is outside the gate), so \<^verbatim>\<open>np.isfinite\<close> is the test for \<open>Some\<close>.
\<close>

definition cost_entry :: "real \<Rightarrow> CartesianPoint \<Rightarrow> Cluster \<Rightarrow> real option" where
  "cost_entry max_d p c =
     (let dx = px p - px (centroid c);
          dy = py p - py (centroid c);
          d = sqrt (dx * dx + dy * dy)
      in if d \<le> max_d then Some d else None)"

definition cost_matrix :: "real \<Rightarrow> CartesianPoint list \<Rightarrow> Cluster list \<Rightarrow> real option list list" where
  "cost_matrix max_d predicted clusters = map (\<lambda>p. map (cost_entry max_d p) clusters) predicted"

definition finite_pairs :: "real option list list \<Rightarrow> nat \<Rightarrow> nat \<Rightarrow> (real \<times> nat \<times> nat) list" where
  "finite_pairs cost num_tracks num_clusters =
     concat (map (\<lambda>t. concat (map (\<lambda>c. case cost ! t ! c of
                                            Some d \<Rightarrow> [(d, t, c)]
                                          | None \<Rightarrow> [])
                                  [0..<num_clusters]))
                 [0..<num_tracks])"

text \<open>The loop over the sorted pairs, with the two \<^verbatim>\<open>used\<close> sets.\<close>

fun greedy_walk :: "(real \<times> nat \<times> nat) list \<Rightarrow> (nat \<times> nat) list \<Rightarrow> nat set \<Rightarrow> nat set
    \<Rightarrow> (nat \<times> nat) list \<times> nat set \<times> nat set" where
  "greedy_walk [] matches used_tracks used_clusters = (matches, used_tracks, used_clusters)"
| "greedy_walk ((d, t, c) # ps) matches used_tracks used_clusters =
     (if t \<notin> used_tracks \<and> c \<notin> used_clusters
      then greedy_walk ps (matches @ [(t, c)]) (insert t used_tracks) (insert c used_clusters)
      else greedy_walk ps matches used_tracks used_clusters)"

text \<open>
  \<^verbatim>\<open>pairs.sort()\<close> orders the tuples \<^verbatim>\<open>(cost, t, c)\<close> lexicographically; the tuples are
  pairwise different, so the sorted list is unique and \<^const>\<open>sort\<close> computes it.
\<close>

definition assign :: "real \<Rightarrow> CartesianPoint list \<Rightarrow> Cluster list
    \<Rightarrow> (nat \<times> nat) list \<times> nat list \<times> nat list" where
  "assign max_d predicted clusters =
     (let num_tracks = length predicted; num_clusters = length clusters
      in if num_tracks = 0 then ([], [], [0..<num_clusters])
         else if num_clusters = 0 then ([], [0..<num_tracks], [])
         else
           (let cost = cost_matrix max_d predicted clusters;
                pairs = sort (finite_pairs cost num_tracks num_clusters)
            in case greedy_walk pairs [] {} {} of
                 (matches, used_tracks, used_clusters) \<Rightarrow>
                   (matches,
                    filter (\<lambda>t. t \<notin> used_tracks) [0..<num_tracks],
                    filter (\<lambda>c. c \<notin> used_clusters) [0..<num_clusters])))"

text \<open>The greedy procedure in the words of the specification.\<close>

definition gated_triples :: "real \<Rightarrow> CartesianPoint list \<Rightarrow> Cluster list \<Rightarrow> (real \<times> nat \<times> nat) list" where
  "gated_triples max_d predicted clusters =
     [(sqrt ((px (predicted ! t) - px (centroid (clusters ! k)))\<^sup>2
             + (py (predicted ! t) - py (centroid (clusters ! k)))\<^sup>2), t, k).
        t \<leftarrow> [0..<length predicted], k \<leftarrow> [0..<length clusters],
        sqrt ((px (predicted ! t) - px (centroid (clusters ! k)))\<^sup>2
              + (py (predicted ! t) - py (centroid (clusters ! k)))\<^sup>2) \<le> max_d]"

fun greedy_accept :: "(real \<times> nat \<times> nat) list \<Rightarrow> (nat \<times> nat) list \<Rightarrow> (nat \<times> nat) list" where
  "greedy_accept [] ms = ms"
| "greedy_accept ((d, t, k) # ps) ms =
     (if t \<notin> fst ` set ms \<and> k \<notin> snd ` set ms
      then greedy_accept ps (ms @ [(t, k)])
      else greedy_accept ps ms)"

definition greedy_spec :: "real \<Rightarrow> CartesianPoint list \<Rightarrow> Cluster list \<Rightarrow> (nat \<times> nat) list" where
  "greedy_spec max_d predicted clusters = greedy_accept (sort (gated_triples max_d predicted clusters)) []"

text \<open>\<^verbatim>\<open>ObjectTracker.update\<close>, loop by loop.\<close>

definition predict :: "Track \<Rightarrow> CartesianPoint" where
  "predict t = \<lparr> px = px (t_centroid t) + px (t_velocity t),
                 py = py (t_centroid t) + py (t_velocity t) \<rparr>"

definition matched_track :: "int \<Rightarrow> Track \<Rightarrow> Cluster \<Rightarrow> Track" where
  "matched_track min_conf t c =
     (let t1 = t\<lparr> t_velocity := \<lparr> px = px (centroid c) - px (t_centroid t),
                                  py = py (centroid c) - py (t_centroid t) \<rparr>,
                  t_centroid := centroid c,
                  t_bounding_radius_mm := bounding_radius_mm c,
                  t_points := points c,
                  age := age t + 1,
                  missing_frames := 0 \<rparr>
      in if age t1 \<ge> min_conf then t1\<lparr> confirmed := True \<rparr> else t1)"

definition apply_match :: "Cluster list \<Rightarrow> int \<Rightarrow> nat \<times> nat \<Rightarrow> Track list \<Rightarrow> Track list" where
  "apply_match clusters min_conf m ts =
     (case m of (track_idx, cluster_idx) \<Rightarrow>
        ts[track_idx := matched_track min_conf (ts ! track_idx) (clusters ! cluster_idx)])"

definition aged_track :: "Track \<Rightarrow> Track" where
  "aged_track t = t\<lparr> missing_frames := missing_frames t + 1, age := age t + 1 \<rparr>"

definition mark_missing :: "nat \<Rightarrow> Track list \<Rightarrow> Track list" where
  "mark_missing track_idx ts = ts[track_idx := aged_track (ts ! track_idx)]"

definition new_track :: "int \<Rightarrow> int \<Rightarrow> Cluster \<Rightarrow> Track" where
  "new_track min_conf nid c =
     \<lparr> track_id = nid, t_centroid = centroid c, t_velocity = \<lparr> px = 0, py = 0 \<rparr>,
       t_bounding_radius_mm = bounding_radius_mm c, t_points = points c,
       age = 1, missing_frames = 0, confirmed = (min_conf \<le> 1) \<rparr>"

definition spawn :: "Cluster list \<Rightarrow> int \<Rightarrow> nat \<Rightarrow> Track list \<times> int \<Rightarrow> Track list \<times> int" where
  "spawn clusters min_conf cluster_idx st =
     (case st of (ts, nid) \<Rightarrow> (ts @ [new_track min_conf nid (clusters ! cluster_idx)], nid + 1))"

definition to_object :: "Track \<Rightarrow> TrackedObject" where
  "to_object t = \<lparr> object_id = track_id t, obj_centroid = t_centroid t,
                   obj_velocity = t_velocity t,
                   obj_bounding_radius_mm = t_bounding_radius_mm t,
                   obj_age = age t, obj_points = t_points t \<rparr>"

text \<open>The result of \<^verbatim>\<open>_assign\<close> for the current tracks.\<close>

definition tracker_assign :: "ObjectTracker \<Rightarrow> Cluster list \<Rightarrow> (nat \<times> nat) list \<times> nat list \<times> nat list" where
  "tracker_assign s clusters = assign (max_match_dist s) (map predict (tracks s)) clusters"

text \<open>
  The three loops that update matched tracks, age unmatched tracks and append new tracks;
  the result is the track list before retirement and the next free id.
\<close>

definition advance_tracks :: "ObjectTracker \<Rightarrow> Cluster list \<Rightarrow> Track list \<times> int" where
  "advance_tracks s clusters =
     (case tracker_assign s clusters of
        (matches, unmatched_tracks, unmatched_clusters) \<Rightarrow>
          (let ts1 = fold (apply_match clusters (min_confirm s)) matches (tracks s);
               ts2 = fold mark_missing unmatched_tracks ts1
           in fold (spawn clusters (min_confirm s)) unmatched_clusters (ts2, next_id s)))"

definition tracker_update :: "ObjectTracker \<Rightarrow> Cluster list \<Rightarrow> ObjectTracker \<times> TrackedObject list" where
  "tracker_update s clusters =
     (case advance_tracks s clusters of
        (ts3, nid) \<Rightarrow>
          (let ts4 = filter (\<lambda>t. missing_frames t \<le> max_missing s) ts3
           in (s\<lparr> tracks := ts4, next_id := nid \<rparr>,
               map to_object (filter (\<lambda>t. confirmed t \<and> missing_frames t = 0) ts4))))"

section \<open>Auxiliary notions for the tracker\<close>

text \<open>
  What the first two loops of \<^verbatim>\<open>update\<close> leave at position \<open>j\<close> of the track list, and
  the tracks the third loop appends.
\<close>

definition stepped_track :: "ObjectTracker \<Rightarrow> Cluster list \<Rightarrow> nat \<Rightarrow> Track" where
  "stepped_track s cl j =
     (case map_of (fst (tracker_assign s cl)) j of
        None \<Rightarrow> aged_track (tracks s ! j)
      | Some k \<Rightarrow> matched_track (min_confirm s) (tracks s ! j) (cl ! k))"

definition spawned_tracks :: "ObjectTracker \<Rightarrow> Cluster list \<Rightarrow> Track list" where
  "spawned_tracks s cl =
     (let us = snd (snd (tracker_assign s cl))
      in map (\<lambda>n. new_track (min_confirm s) (next_id s + int n) (cl ! (us ! n))) [0..<length us])"

text \<open>
  The invariant of the tracker states reached from \<^verbatim>\<open>__init__\<close>: ids are positive, below
  \<open>next_id\<close> and pairwise different, and no \<open>missing_frames\<close> counter is negative.
\<close>

definition tracker_inv :: "ObjectTracker \<Rightarrow> bool" where
  "tracker_inv s \<longleftrightarrow>
     1 \<le> next_id s \<and> distinct (map track_id (tracks s))
     \<and> (\<forall>t \<in> set (tracks s). 1 \<le> track_id t \<and> track_id t < next_id s \<and> 0 \<le> missing_frames t)"

text \<open>
  The tracks created by one update, all tracks created and all objects returned by a
  sequence of updates.
\<close>

definition created_tracks :: "ObjectTracker \<Rightarrow> Cluster list \<Rightarrow> Track list" where
  "created_tracks s cl = drop (length (tracks s)) (fst (advance_tracks s cl))"

fun all_created :: "ObjectTracker \<Rightarrow> Cluster list list \<Rightarrow> Track list" where
  "all_created s [] = []"
| "all_created s (cl # cls) = created_tracks s cl @ all_created (fst (tracker_update s cl)) cls"

fun all_emitted :: "ObjectTracker \<Rightarrow> Cluster list list \<Rightarrow> TrackedObject list" where
  "all_emitted s [] = []"
| "all_emitted s (cl # cls) = snd (tracker_update s cl) @ all_emitted (fst (tracker_update s cl)) cls"

text \<open>Example values.\<close>

definition cluster_at :: "real \<Rightarrow> real \<Rightarrow> Cluster" where
  "cluster_at x y = \<lparr> centroid = \<lparr> px = x, py = y \<rparr>, points = [], bounding_radius_mm = 100 \<rparr>"

definition point_at :: "real \<Rightarrow> real \<Rightarrow> CartesianPoint" where
  "point_at x y = \<lparr> px = x, py = y \<rparr>"

definition tracker1 :: ObjectTracker where
  "tracker1 = \<lparr> max_match_dist = 800, max_missing = 10, min_confirm = 1, next_id = 2,
      tracks = [\<lparr> track_id = 1, t_centroid = \<lparr> px = 1000, py = 1000 \<rparr>,
                 t_velocity = \<lparr> px = 0, py = 0 \<rparr>, t_bounding_radius_mm = 100,
                 t_points = [], age = 1, missing_frames = 0, confirmed = True \<rparr>] \<rparr>"

section \<open>Properties of the background model\<close>

lemma angle_to_bin_range:
  assumes "1 \<le> num_bins m"
  shows "0 \<le> angle_to_bin m a" and "angle_to_bin m a < num_bins m"
  using assms by (simp_all add: angle_to_bin_def)

lemma bm_wf_init:
  assumes "BackgroundModel_init n lr T F = Inr m"
  shows "bm_wf m" and "num_bins m = n" and "threshold m = T" and "learning_rate m = lr"
    and "min_frames m = F" and "bm_frame_count m = 0"
  using assms by (auto simp: BackgroundModel_init_def bm_wf_def split: if_splits)

lemma update_point_fields [simp]:
  "num_bins (update_point p m) = num_bins m"
  "bin_width (update_point p m) = bin_width m"
  "threshold (update_point p m) = threshold m"
  "learning_rate (update_point p m) = learning_rate m"
  "min_frames (update_point p m) = min_frames m"
  "bm_frame_count (update_point p m) = bm_frame_count m"
  "length (background (update_point p m)) = length (background m)"
  "length (bin_counts (update_point p m)) = length (bin_counts m)"
  by (simp_all add: update_point_def Let_def split: bgval.splits)

lemma fold_update_point_fields [simp]:
  "num_bins (fold update_point ps m) = num_bins m"
  "bin_width (fold update_point ps m) = bin_width m"
  "threshold (fold update_point ps m) = threshold m"
  "learning_rate (fold update_point ps m) = learning_rate m"
  "min_frames (fold update_point ps m) = min_frames m"
  "bm_frame_count (fold update_point ps m) = bm_frame_count m"
  "length (background (fold update_point ps m)) = length (background m)"
  "length (bin_counts (fold update_point ps m)) = length (bin_counts m)"
  by (induction ps arbitrary: m; simp)+

lemma bm_update_fields [simp]:
  "num_bins (bm_update ps m) = num_bins m"
  "bin_width (bm_update ps m) = bin_width m"
  "threshold (bm_update ps m) = threshold m"
  "learning_rate (bm_update ps m) = learning_rate m"
  "min_frames (bm_update ps m) = min_frames m"
  "bm_frame_count (bm_update ps m) = bm_frame_count m + 1"
  "length (background (bm_update ps m)) = length (background m)"
  "length (bin_counts (bm_update ps m)) = length (bin_counts m)"
  by (simp_all add: bm_update_def Let_def)

lemma bm_wf_update: "bm_wf m \<Longrightarrow> bm_wf (bm_update ps m)"
  by (simp add: bm_wf_def)


lemma num_bins_updates [simp]: "num_bins (fold bm_update scans m) = num_bins m"
  by (induction scans arbitrary: m) simp_all



lemma angle_to_bin_update_point [simp]:
  "angle_to_bin (update_point p m) a = angle_to_bin m a"
  by (simp add: angle_to_bin_def)

lemma angle_to_bin_fold_update_point [simp]:
  "angle_to_bin (fold update_point ps m) a = angle_to_bin m a"
  by (simp add: angle_to_bin_def)

lemma angle_to_bin_bm_update [simp]:
  "angle_to_bin (bm_update ps m) a = angle_to_bin m a"
  by (simp add: angle_to_bin_def)

lemma bin_consistent_cong:
  "num_bins m' = num_bins m \<Longrightarrow> bin_width m' = bin_width m \<Longrightarrow>
   bin_consistent m' S = bin_consistent m S"
  by (simp add: bin_consistent_def angle_to_bin_def)

lemma same_bin_nat:
  assumes "bm_wf m"
  shows "nat (angle_to_bin m a) = nat (angle_to_bin m a') \<longleftrightarrow> angle_to_bin m a = angle_to_bin m a'"
proof -
  have "0 \<le> angle_to_bin m a" "0 \<le> angle_to_bin m a'"
    using assms angle_to_bin_range(1)[of m] by (simp_all add: bm_wf_def)
  then show ?thesis by (rule eq_nat_nat_iff)
qed

lemma learned_from_update_point:
  assumes T: "0 \<le> threshold m" and wf: "bm_wf m" and bc: "bin_consistent m S"
    and p: "p \<in> set S" and lf: "learned_from S m"
  shows "learned_from S (update_point p m)"
  unfolding learned_from_def
proof (intro allI impI)
  fix b v
  let ?bp = "nat (angle_to_bin m (angle_deg p))"
  assume b: "b < length (background (update_point p m))"
    and v: "background (update_point p m) ! b = Fin v"
  have blen: "b < length (background m)" using b by simp
  have bp_len: "?bp < length (background m)"
    using wf angle_to_bin_range[of m "angle_deg p"] by (simp add: bm_wf_def)
  show "\<exists>q\<in>set S. nat (angle_to_bin (update_point p m) (angle_deg q)) = b \<and> v = distance_mm q"
  proof (cases "b = ?bp")
    case False
    then have "background (update_point p m) ! b = background m ! b"
      by (simp add: update_point_def Let_def split: bgval.splits)
    with v lf blen show ?thesis by (simp add: learned_from_def)
  next
    case True
    have "v = distance_mm p"
    proof (cases "bin_counts m ! ?bp = 0")
      case True
      with v \<open>b = ?bp\<close> bp_len show ?thesis by (simp add: update_point_def Let_def)
    next
      case nz: False
      show ?thesis
      proof (cases "background m ! ?bp")
        case Inf
        with v \<open>b = ?bp\<close> nz show ?thesis by (simp add: update_point_def Let_def)
      next
        case (Fin w)
        with lf bp_len obtain q where q: "q \<in> set S"
          "nat (angle_to_bin m (angle_deg q)) = ?bp" "w = distance_mm q"
          by (auto simp: learned_from_def)
        have "angle_to_bin m (angle_deg q) = angle_to_bin m (angle_deg p)"
          using q(2) wf by (simp add: same_bin_nat)
        with bc p q(1) have "distance_mm q = distance_mm p"
          unfolding bin_consistent_def by blast
        with q(3) have w: "w = distance_mm p" by simp
        with v \<open>b = ?bp\<close> nz Fin T bp_len show ?thesis
          by (simp add: update_point_def Let_def)
      qed
    qed
    with p True show ?thesis by auto
  qed
qed

lemma bm_wf_update_point: "bm_wf m \<Longrightarrow> bm_wf (update_point p m)"
  by (simp add: bm_wf_def)

lemma learned_from_fold:
  assumes "0 \<le> threshold m" "bm_wf m" "bin_consistent m S" "set ps \<subseteq> set S" "learned_from S m"
  shows "learned_from S (fold update_point ps m)"
  using assms
proof (induction ps arbitrary: m)
  case Nil
  then show ?case by simp
next
  case (Cons p ps)
  have "learned_from S (update_point p m)"
    using Cons.prems by (intro learned_from_update_point) auto
  moreover have "bin_consistent (update_point p m) S"
    using Cons.prems(3) bin_consistent_cong[of "update_point p m" m S] by simp
  ultimately show ?case
    using Cons.prems by (simp add: Cons.IH bm_wf_update_point)
qed

lemma learned_from_frame_count:
  "learned_from S (m\<lparr>bm_frame_count := k\<rparr>) = learned_from S m"
  by (simp add: learned_from_def angle_to_bin_def)

lemma learned_from_bm_update:
  assumes "0 \<le> threshold m" "bm_wf m" "bin_consistent m S" "learned_from S m"
  shows "learned_from S (bm_update S m)"
  using learned_from_fold[OF assms(1-3) subset_refl assms(4)]
  by (simp add: bm_update_def Let_def learned_from_frame_count)

lemma learned_from_iterate:
  assumes "0 \<le> threshold m" "bm_wf m" "bin_consistent m S" "learned_from S m"
  shows "learned_from S ((bm_update S ^^ k) m) \<and> bm_wf ((bm_update S ^^ k) m)
         \<and> threshold ((bm_update S ^^ k) m) = threshold m
         \<and> num_bins ((bm_update S ^^ k) m) = num_bins m
         \<and> bin_width ((bm_update S ^^ k) m) = bin_width m
         \<and> min_frames ((bm_update S ^^ k) m) = min_frames m
         \<and> bm_frame_count ((bm_update S ^^ k) m) = bm_frame_count m + int k"
proof (induction k)
  case 0
  then show ?case using assms by simp
next
  case (Suc k)
  let ?m = "(bm_update S ^^ k) m"
  have "bin_consistent ?m S" using Suc assms(3) bin_consistent_cong[of ?m m S] by simp
  then have "learned_from S (bm_update S ?m)"
    using Suc assms(1) by (intro learned_from_bm_update) simp_all
  then show ?case using Suc by (simp add: bm_wf_update)
qed

lemma learned_from_init:
  "BackgroundModel_init n lr T F = Inr m \<Longrightarrow> learned_from S m"
  by (auto simp: BackgroundModel_init_def learned_from_def split: if_splits)

lemma learned_not_foreground:
  assumes T: "0 \<le> threshold m" and wf: "bm_wf m" and bc: "bin_consistent m S"
    and lf: "learned_from S m" and p: "p \<in> set S"
  shows "\<not> is_foreground m p"
proof (cases "background m ! nat (angle_to_bin m (angle_deg p))")
  case Inf
  then show ?thesis by (simp add: is_foreground_def)
next
  case (Fin w)
  have "nat (angle_to_bin m (angle_deg p)) < length (background m)"
    using wf angle_to_bin_range[of m "angle_deg p"] by (simp add: bm_wf_def)
  with lf Fin obtain q where q: "q \<in> set S"
    "nat (angle_to_bin m (angle_deg q)) = nat (angle_to_bin m (angle_deg p))" "w = distance_mm q"
    by (auto simp: learned_from_def)
  have "angle_to_bin m (angle_deg q) = angle_to_bin m (angle_deg p)"
    using q(2) wf by (simp add: same_bin_nat)
  with bc p q(1) have "distance_mm q = distance_mm p"
    unfolding bin_consistent_def by blast
  with q(3) have "w = distance_mm p" by simp
  with Fin T show ?thesis by (simp add: is_foreground_def)
qed

text \<open>
  C7 (as amended). For a freshly constructed model with a non-negative foreground threshold
  and a scan \<open>S\<close> in which any two points of the same angular bin have the same range:
  after \<open>S\<close> has been fed to \<^verbatim>\<open>update\<close> at least \<open>min_learning_frames + 1\<close> times,
  the model is ready and \<^verbatim>\<open>classify(S)\<close> is the empty list.
\<close>

theorem C7_static_scan_no_foreground:
  assumes "BackgroundModel_init n lr T F = Inr m0"
    and "0 \<le> T"
    and "bin_consistent m0 S"
    and "int k \<ge> F + 1"
  shows "is_ready ((bm_update S ^^ k) m0) \<and> classify ((bm_update S ^^ k) m0) S = []"
proof -
  let ?m = "(bm_update S ^^ k) m0"
  note i = bm_wf_init[OF assms(1)]
  have T0: "0 \<le> threshold m0" using i assms(2) by simp
  note it = learned_from_iterate[OF T0 i(1) assms(3) learned_from_init[OF assms(1)], of k]
  have bc: "bin_consistent ?m S" using it assms(3) bin_consistent_cong[of ?m m0 S] by simp
  have "\<forall>p \<in> set S. \<not> is_foreground ?m p"
    using learned_not_foreground[OF _ _ bc] it T0 by simp
  then have "filter (is_foreground ?m) S = []" by (simp add: filter_empty_conv)
  moreover have "is_ready ?m" using it i assms(4) by (simp add: is_ready_def)
  ultimately show ?thesis by (simp add: classify_def)
qed

theorem C7_static_scan_no_foreground_witness:
  "BackgroundModel_init 720 0.02 150 2 = Inr fresh_model
   \<and> (0::real) \<le> 150 \<and> bin_consistent fresh_model static_scan \<and> int 3 \<ge> 2 + 1
   \<and> is_ready ((bm_update static_scan ^^ 3) fresh_model)
   \<and> classify ((bm_update static_scan ^^ 3) fresh_model) static_scan = []"
proof -
  have i: "BackgroundModel_init 720 0.02 150 2 = Inr fresh_model"
    by (simp add: BackgroundModel_init_def fresh_model_def)
  have bc: "bin_consistent fresh_model static_scan"
    by (simp add: bin_consistent_def static_scan_def angle_to_bin_def py_int_def fresh_model_def)
  have k: "int 3 \<ge> 2 + 1" by simp
  from C7_static_scan_no_foreground[OF i _ bc k] i bc show ?thesis by simp
qed

text \<open>
  The claim as stated (every scan whose ranges are constant per angle) fails: two angles of
  one bin with different ranges. The first point seeds the bin at 5000 mm, the second is
  never absorbed, and after three updates it is classified as foreground.
\<close>

theorem C7_counterexample:
  "BackgroundModel_init 720 0.02 150 2 = Inr fresh_model
   \<and> is_ready ((bm_update two_range_scan ^^ 3) fresh_model)
   \<and> classify ((bm_update two_range_scan ^^ 3) fresh_model) two_range_scan
       = [\<lparr>angle_deg = 90.2, distance_mm = 2000\<rparr>]"
  by (simp add: BackgroundModel_init_def fresh_model_def two_range_scan_def numeral_3_eq_3
      bm_update_def update_point_def classify_def is_ready_def is_foreground_def
      angle_to_bin_def py_int_def Let_def)

lemma nth_background_update_point:
  assumes "b < length (background m)"
  shows "background (update_point p m) ! b =
           (if b = nat (angle_to_bin m (angle_deg p))
            then next_bg (learning_rate m) (threshold m) (bin_counts m ! b) (distance_mm p)
                   (background m ! b)
            else background m ! b)"
  using assms by (simp add: update_point_def Let_def next_bg_def split: bgval.splits)

lemma ema_both:
  fixes lr :: real
  assumes "0 \<le> lr" "lr \<le> 1" "T1 \<le> T2" "v2 - T2 \<le> v1 - T1"
  shows "(v2 + lr * (d - v2)) - T2 \<le> (v1 + lr * (d - v1)) - T1"
proof -
  have "(1 - lr) * (v2 - v1) \<le> (1 - lr) * (T2 - T1)"
    using assms by (intro mult_left_mono) simp_all
  also have "\<dots> \<le> 1 * (T2 - T1)"
    using assms by (intro mult_right_mono) simp_all
  finally have "(1 - lr) * (v2 - v1) \<le> T2 - T1" by simp
  then show ?thesis by (simp add: algebra_simps)
qed

lemma ema_second_only:
  fixes lr :: real
  assumes "0 \<le> lr" "lr \<le> 1" "0 \<le> T2" "v2 - T2 \<le> c" "d < c"
  shows "(v2 + lr * (d - v2)) - T2 \<le> c"
proof -
  have "(1 - lr) * (v2 - T2) + lr * (d - T2) \<le> c"
    using assms by (intro convex_bound_le) simp_all
  then show ?thesis by (simp add: algebra_simps)
qed

lemma cutoff_le_next_bg:
  assumes "0 \<le> lr" "lr \<le> 1" "T1 \<le> T2" "0 \<le> T2" "cutoff_le T1 T2 e1 e2"
  shows "cutoff_le T1 T2 (next_bg lr T1 c d e1) (next_bg lr T2 c d e2)"
proof (cases "c = 0")
  case True
  then show ?thesis using assms(3) by (simp add: next_bg_def cutoff_le_def)
next
  case nz: False
  show ?thesis
  proof (cases e1)
    case Inf
    with assms(5) nz show ?thesis by (simp add: next_bg_def cutoff_le_def)
  next
    case (Fin v1)
    with assms(5) obtain v2 where e2: "e2 = Fin v2" and le: "v2 - T2 \<le> v1 - T1"
      by (cases e2) (simp_all add: cutoff_le_def)
    consider (both) "d \<ge> v1 - T1" | (snd) "d < v1 - T1" "d \<ge> v2 - T2" | (none) "d < v2 - T2"
      by linarith
    then show ?thesis
    proof cases
      case both
      then have "d \<ge> v2 - T2" using le by simp
      with both nz Fin e2 ema_both[OF assms(1-3) le, of d] show ?thesis
        by (simp add: next_bg_def cutoff_le_def)
    next
      case snd
      with nz Fin e2 ema_second_only[OF assms(1,2,4) le snd(1)] show ?thesis
        by (simp add: next_bg_def cutoff_le_def)
    next
      case none
      then have "\<not> d \<ge> v1 - T1" using le by simp
      with none nz Fin e2 le show ?thesis
        by (simp add: next_bg_def cutoff_le_def)
    qed
  qed
qed

lemma bin_counts_update_point:
  "bin_counts (update_point p m) =
     (bin_counts m)[nat (angle_to_bin m (angle_deg p)) := bin_counts m ! nat (angle_to_bin m (angle_deg p)) + 1]"
  by (simp add: update_point_def Let_def)

lemma same_history_update_point:
  assumes lr: "0 \<le> learning_rate m1" "learning_rate m1 \<le> 1"
    and T: "threshold m1 \<le> threshold m2" "0 \<le> threshold m2"
    and sh: "same_history m1 m2"
  shows "same_history (update_point p m1) (update_point p m2)"
proof -
  have bins: "angle_to_bin m2 a = angle_to_bin m1 a" for a
    using sh by (simp add: same_history_def angle_to_bin_def)
  have "cutoff_le (threshold m1) (threshold m2)
          (background (update_point p m1) ! b) (background (update_point p m2) ! b)"
    if "b < length (background m1)" for b
  proof -
    have b2: "b < length (background m2)" using that sh by (simp add: same_history_def)
    have c: "cutoff_le (threshold m1) (threshold m2) (background m1 ! b) (background m2 ! b)"
      using that sh by (simp add: same_history_def)
    have eqs: "learning_rate m2 = learning_rate m1" "bin_counts m2 = bin_counts m1"
      using sh by (simp_all add: same_history_def)
    show ?thesis
      using cutoff_le_next_bg[OF lr T c, of "bin_counts m1 ! b" "distance_mm p"] c
      by (auto simp add: nth_background_update_point[OF that] nth_background_update_point[OF b2]
          bins eqs)
  qed
  moreover have "bin_counts (update_point p m2) = bin_counts (update_point p m1)"
    using sh by (simp add: bin_counts_update_point bins same_history_def)
  ultimately show ?thesis
    using sh by (simp add: same_history_def bm_wf_update_point)
qed

lemma same_history_fold:
  assumes "0 \<le> learning_rate m1" "learning_rate m1 \<le> 1"
    and "threshold m1 \<le> threshold m2" "0 \<le> threshold m2"
    and "same_history m1 m2"
  shows "same_history (fold update_point ps m1) (fold update_point ps m2)"
  using assms
proof (induction ps arbitrary: m1 m2)
  case Nil
  then show ?case by simp
next
  case (Cons p ps)
  have "same_history (update_point p m1) (update_point p m2)"
    using Cons.prems by (rule same_history_update_point)
  then show ?case using Cons.prems(1-4) by (simp add: Cons.IH)
qed

lemma same_history_frame_count:
  assumes "same_history m1 m2"
  shows "same_history (m1\<lparr>bm_frame_count := k\<rparr>) (m2\<lparr>bm_frame_count := k\<rparr>)"
  using assms by (simp add: same_history_def bm_wf_def)

lemma same_history_bm_update:
  assumes "0 \<le> learning_rate m1" "learning_rate m1 \<le> 1"
    and "threshold m1 \<le> threshold m2" "0 \<le> threshold m2"
    and "same_history m1 m2"
  shows "same_history (bm_update ps m1) (bm_update ps m2)"
proof -
  have sh: "same_history (fold update_point ps m1) (fold update_point ps m2)"
    using assms by (rule same_history_fold)
  then have "bm_frame_count (fold update_point ps m2) = bm_frame_count (fold update_point ps m1)"
    by (simp add: same_history_def)
  then show ?thesis
    using same_history_frame_count[OF sh] by (simp add: bm_update_def Let_def)
qed

lemma same_history_updates:
  assumes "0 \<le> learning_rate m1" "learning_rate m1 \<le> 1"
    and "threshold m1 \<le> threshold m2" "0 \<le> threshold m2"
    and "same_history m1 m2"
  shows "same_history (fold bm_update scans m1) (fold bm_update scans m2)"
  using assms
proof (induction scans arbitrary: m1 m2)
  case Nil
  then show ?case by simp
next
  case (Cons ps scans)
  have "same_history (bm_update ps m1) (bm_update ps m2)"
    using Cons.prems by (rule same_history_bm_update)
  then show ?case using Cons.prems(1-4) by (simp add: Cons.IH)
qed

lemma same_history_init:
  assumes "BackgroundModel_init n lr T1 F = Inr m1" "BackgroundModel_init n lr T2 F = Inr m2"
  shows "same_history m1 m2"
  using assms
  by (auto simp: BackgroundModel_init_def same_history_def bm_wf_def cutoff_le_def split: if_splits)

lemma threshold_updates [simp]: "threshold (fold bm_update scans m) = threshold m"
  by (induction scans arbitrary: m) simp_all

lemma same_history_foreground:
  assumes sh: "same_history m1 m2" and fg: "is_foreground m2 p"
  shows "is_foreground m1 p"
proof -
  let ?b = "nat (angle_to_bin m1 (angle_deg p))"
  have bins: "angle_to_bin m2 (angle_deg p) = angle_to_bin m1 (angle_deg p)"
    using sh by (simp add: same_history_def angle_to_bin_def)
  have "bm_wf m1" using sh by (simp add: same_history_def)
  then have "?b < length (background m1)"
    using angle_to_bin_range[of m1 "angle_deg p"] by (simp add: bm_wf_def)
  with sh have "cutoff_le (threshold m1) (threshold m2) (background m1 ! ?b) (background m2 ! ?b)"
    by (simp add: same_history_def)
  with fg bins show ?thesis
    by (auto simp: is_foreground_def cutoff_le_def split: bgval.splits)
qed

text \<open>
  C3. Two models constructed with the same parameters except the foreground threshold
  (learning rate in \<open>[0, 1]\<close>, the larger threshold non-negative) and fed the same
  sequence of scans: every point that \<^verbatim>\<open>classify\<close> reports under the larger threshold
  is reported under the smaller threshold.
\<close>

theorem C3_foreground_monotone:
  assumes "BackgroundModel_init n lr T1 F = Inr m1"
    and "BackgroundModel_init n lr T2 F = Inr m2"
    and "0 \<le> lr" and "lr \<le> 1" and "T1 \<le> T2" and "0 \<le> T2"
  shows "set (classify (fold bm_update scans m2) ps) \<subseteq> set (classify (fold bm_update scans m1) ps)"
proof -
  note i1 = bm_wf_init[OF assms(1)] and i2 = bm_wf_init[OF assms(2)]
  have sh: "same_history (fold bm_update scans m1) (fold bm_update scans m2)"
    using same_history_init[OF assms(1,2)] assms(3-6) i1 i2
    by (intro same_history_updates) simp_all
  then have "is_ready (fold bm_update scans m2) = is_ready (fold bm_update scans m1)"
    by (simp add: same_history_def is_ready_def)
  then show ?thesis
    using same_history_foreground[OF sh] by (auto simp: classify_def)
qed

theorem C3_foreground_monotone_witness:
  "BackgroundModel_init 720 0.02 150 2 = Inr fresh_model
   \<and> BackgroundModel_init 720 0.02 300 2 = Inr lenient_model
   \<and> (0::real) \<le> 0.02 \<and> (0.02::real) \<le> 1 \<and> (150::real) \<le> 300 \<and> (0::real) \<le> 300
   \<and> set (classify (fold bm_update [two_range_scan, two_range_scan] lenient_model) two_range_scan)
       \<subseteq> set (classify (fold bm_update [two_range_scan, two_range_scan] fresh_model) two_range_scan)"
proof -
  have i1: "BackgroundModel_init 720 0.02 150 2 = Inr fresh_model"
    by (simp add: BackgroundModel_init_def fresh_model_def)
  have i2: "BackgroundModel_init 720 0.02 300 2 = Inr lenient_model"
    by (simp add: BackgroundModel_init_def lenient_model_def)
  from C3_foreground_monotone[OF i1 i2, of "[two_range_scan, two_range_scan]" two_range_scan] i1 i2
  show ?thesis by simp
qed

section \<open>Properties of the trajectory store\<close>

lemma max_length_do_record [simp]: "max_length (do_record c s) = max_length s"
  by (cases c) (simp add: do_record_def ts_record_def Let_def)

lemma max_length_fold_record [simp]: "max_length (fold do_record cs s) = max_length s"
  by (induction cs arbitrary: s) simp_all

lemma max_length_init [simp]: "max_length (TrajectoryStore_init B) = B"
  by (simp add: TrajectoryStore_init_def)

lemma store_inv_init: "store_inv (TrajectoryStore_init B)"
  by (simp add: store_inv_def TrajectoryStore_init_def)

lemma store_inv_do_record: "store_inv s \<Longrightarrow> store_inv (do_record c s)"
  by (cases c)
    (auto simp: store_inv_def do_record_def ts_record_def Let_def deque_append_def deque_new_def
      split: option.splits)

lemma store_inv_fold: "store_inv s \<Longrightarrow> store_inv (fold do_record cs s)"
  by (induction cs arbitrary: s) (simp_all add: store_inv_do_record)

lemma ts_get_do_record_other:
  "fst c \<noteq> oid \<Longrightarrow> ts_get (do_record c s) oid = ts_get s oid"
  by (cases c) (simp add: ts_get_def do_record_def ts_record_def Let_def)

lemma ts_get_do_record_same:
  assumes "store_inv s" and "fst c = oid"
  shows "ts_get (do_record c s) oid =
           (let ys = ts_get s oid @ [call_point c]
            in if max_length s > 0 \<and> length ys > nat (max_length s) then tl ys else ys)"
  using assms
  by (cases c)
    (auto simp: ts_get_def do_record_def ts_record_def Let_def deque_append_def deque_new_def
      call_point_def store_inv_def split: option.splits)

lemma ts_get_init: "ts_get (TrajectoryStore_init B) oid = []"
  by (simp add: ts_get_def TrajectoryStore_init_def)

lemma ts_get_fold_record:
  "ts_get (fold do_record cs (TrajectoryStore_init B)) oid =
     (if B > 0 then drop (length (recorded_for oid cs) - nat B) (recorded_for oid cs)
      else recorded_for oid cs)"
proof (induction cs rule: rev_induct)
  case Nil
  then show ?case by (simp add: ts_get_init recorded_for_def)
next
  case (snoc c cs)
  let ?s = "fold do_record cs (TrajectoryStore_init B)"
  have inv: "store_inv ?s" by (simp add: store_inv_fold store_inv_init)
  show ?case
  proof (cases "fst c = oid")
    case False
    then show ?thesis
      using snoc by (simp add: ts_get_do_record_other recorded_for_def)
  next
    case True
    let ?ps = "recorded_for oid cs"
    have rf: "recorded_for oid (cs @ [c]) = ?ps @ [call_point c]"
      using True by (simp add: recorded_for_def)
    show ?thesis
    proof (cases "B > 0")
      case False
      then show ?thesis
        using snoc True by (simp add: ts_get_do_record_same[OF inv True] rf Let_def)
    next
      case pos: True
      show ?thesis
      proof (cases "length ?ps < nat B")
        case True
        then show ?thesis
          using snoc pos \<open>fst c = oid\<close>
          by (simp add: ts_get_do_record_same[OF inv \<open>fst c = oid\<close>] rf Let_def)
      next
        case False
        then have "drop (length ?ps - nat B) ?ps \<noteq> []" using pos by simp
        then have "tl (drop (length ?ps - nat B) ?ps @ [call_point c])
                     = drop (Suc (length ?ps - nat B)) ?ps @ [call_point c]"
          by (simp add: drop_Suc tl_drop)
        moreover have "Suc (length ?ps) - nat B = Suc (length ?ps - nat B)"
          using False by simp
        ultimately show ?thesis
          using snoc pos False \<open>fst c = oid\<close>
          by (simp add: ts_get_do_record_same[OF inv \<open>fst c = oid\<close>] rf Let_def)
      qed
    qed
  qed
qed

text \<open>
  C8. A store constructed with bound \<open>B\<close> and any sequence of \<^verbatim>\<open>record\<close> calls. For
  \<open>B \<ge> 1\<close> the history of each id holds at most \<open>B\<close> points, namely the last \<open>B\<close>
  points recorded for the id, and a further call on a full history drops its oldest point;
  for \<open>B = 0\<close> the history holds every point recorded for the id.
\<close>

theorem C8_trajectory_bound:
  "(1 \<le> B \<longrightarrow>
      length (ts_get (fold do_record cs (TrajectoryStore_init B)) oid) \<le> nat B
      \<and> ts_get (fold do_record cs (TrajectoryStore_init B)) oid
          = drop (length (recorded_for oid cs) - nat B) (recorded_for oid cs)
      \<and> ts_get (do_record c (fold do_record cs (TrajectoryStore_init B))) (fst c)
          = (if length (ts_get (fold do_record cs (TrajectoryStore_init B)) (fst c)) = nat B
             then tl (ts_get (fold do_record cs (TrajectoryStore_init B)) (fst c)) @ [call_point c]
             else ts_get (fold do_record cs (TrajectoryStore_init B)) (fst c) @ [call_point c]))
   \<and> (B = 0 \<longrightarrow>
      ts_get (fold do_record cs (TrajectoryStore_init B)) oid = recorded_for oid cs)"
proof (intro conjI impI)
  let ?s = "fold do_record cs (TrajectoryStore_init B)"
  have inv: "store_inv ?s" by (simp add: store_inv_fold store_inv_init)
  {
    assume B: "1 \<le> B"
    then show eq: "ts_get ?s oid = drop (length (recorded_for oid cs) - nat B) (recorded_for oid cs)"
      by (simp add: ts_get_fold_record)
    have len: "length (ts_get ?s i) \<le> nat B" for i
      using B by (simp add: ts_get_fold_record)
    then show "length (ts_get ?s oid) \<le> nat B" .
    show "ts_get (do_record c ?s) (fst c)
          = (if length (ts_get ?s (fst c)) = nat B
             then tl (ts_get ?s (fst c)) @ [call_point c]
             else ts_get ?s (fst c) @ [call_point c])"
    proof (cases "length (ts_get ?s (fst c)) = nat B")
      case True
      then have "ts_get ?s (fst c) \<noteq> []" using B by auto
      then show ?thesis
        using True B by (simp add: ts_get_do_record_same[OF inv refl] Let_def)
    next
      case False
      then have "length (ts_get ?s (fst c)) < nat B" using len[of "fst c"] by simp
      then show ?thesis
        using False B by (simp add: ts_get_do_record_same[OF inv refl] Let_def)
    qed
  }
  {
    assume "B = 0"
    then show "ts_get ?s oid = recorded_for oid cs" by (simp add: ts_get_fold_record)
  }
qed

theorem C8_trajectory_bound_witness:
  "(1::int) \<le> 2
   \<and> length (ts_get (fold do_record three_calls (TrajectoryStore_init 2)) 7) \<le> nat 2
   \<and> ts_get (fold do_record three_calls (TrajectoryStore_init 2)) 7
       = [\<lparr> tp_x = 2, tp_y = 2, tp_frame_number = 1, tp_timestamp = None \<rparr>,
          \<lparr> tp_x = 3, tp_y = 3, tp_frame_number = 2, tp_timestamp = None \<rparr>]
   \<and> ts_get (do_record (7, 4, 4, 3, None) (fold do_record three_calls (TrajectoryStore_init 2))) 7
       = [\<lparr> tp_x = 3, tp_y = 3, tp_frame_number = 2, tp_timestamp = None \<rparr>,
          \<lparr> tp_x = 4, tp_y = 4, tp_frame_number = 3, tp_timestamp = None \<rparr>]
   \<and> ts_get (fold do_record three_calls (TrajectoryStore_init 0)) 7
       = [\<lparr> tp_x = 1, tp_y = 1, tp_frame_number = 0, tp_timestamp = None \<rparr>,
          \<lparr> tp_x = 2, tp_y = 2, tp_frame_number = 1, tp_timestamp = None \<rparr>,
          \<lparr> tp_x = 3, tp_y = 3, tp_frame_number = 2, tp_timestamp = None \<rparr>]"
proof -
  have r: "recorded_for 7 three_calls
       = [\<lparr> tp_x = 1, tp_y = 1, tp_frame_number = 0, tp_timestamp = None \<rparr>,
          \<lparr> tp_x = 2, tp_y = 2, tp_frame_number = 1, tp_timestamp = None \<rparr>,
          \<lparr> tp_x = 3, tp_y = 3, tp_frame_number = 2, tp_timestamp = None \<rparr>]"
    by (simp add: recorded_for_def three_calls_def call_point_def)
  have n: "nat 2 = Suc (Suc 0)" by simp
  from C8_trajectory_bound[of 2 three_calls 7 "(7, 4, 4, 3, None)"]
    C8_trajectory_bound[of 0 three_calls 7 "(7, 4, 4, 3, None)"]
  show ?thesis by (simp add: r n call_point_def)
qed

section \<open>Properties of the tracker\<close>

text \<open>The equations that evaluate the tracker on the example values.\<close>

lemmas tracker_eval = tracker_update_def advance_tracks_def tracker_assign_def assign_def
  cost_matrix_def cost_entry_def finite_pairs_def Let_def predict_def apply_match_def
  matched_track_def mark_missing_def aged_track_def spawn_def new_track_def to_object_def
  cluster_at_def point_at_def upt_conv_Cons

lemma greedy_walk_accept:
  assumes "ut = fst ` set ms" "uc = snd ` set ms"
  shows "greedy_walk ps ms ut uc =
           (greedy_accept ps ms, fst ` set (greedy_accept ps ms), snd ` set (greedy_accept ps ms))"
  using assms
proof (induction ps ms ut uc rule: greedy_walk.induct)
  case (1 matches used_tracks used_clusters)
  then show ?case by simp
next
  case (2 d t c ps matches used_tracks used_clusters)
  then show ?case by (cases "t \<notin> used_tracks \<and> c \<notin> used_clusters") auto
qed

lemma finite_pairs_cost_matrix:
  "finite_pairs (cost_matrix max_d predicted clusters) (length predicted) (length clusters)
     = gated_triples max_d predicted clusters"
proof -
  have inner: "(case cost_matrix max_d predicted clusters ! t ! c of
                  Some d \<Rightarrow> [(d, t, c)] | None \<Rightarrow> [])
       = (if sqrt ((px (predicted ! t) - px (centroid (clusters ! c)))\<^sup>2
              + (py (predicted ! t) - py (centroid (clusters ! c)))\<^sup>2) \<le> max_d
          then [(sqrt ((px (predicted ! t) - px (centroid (clusters ! c)))\<^sup>2
             + (py (predicted ! t) - py (centroid (clusters ! c)))\<^sup>2), t, c)] else [])"
    if "t < length predicted" "c < length clusters" for t c
    using that by (simp add: cost_matrix_def cost_entry_def Let_def power2_eq_square)
  have "map (\<lambda>c. case cost_matrix max_d predicted clusters ! t ! c of
                  Some d \<Rightarrow> [(d, t, c)] | None \<Rightarrow> []) [0..<length clusters]
      = map (\<lambda>c. if sqrt ((px (predicted ! t) - px (centroid (clusters ! c)))\<^sup>2
              + (py (predicted ! t) - py (centroid (clusters ! c)))\<^sup>2) \<le> max_d
          then [(sqrt ((px (predicted ! t) - px (centroid (clusters ! c)))\<^sup>2
             + (py (predicted ! t) - py (centroid (clusters ! c)))\<^sup>2), t, c)] else [])
          [0..<length clusters]"
    if "t < length predicted" for t
    using that inner by (intro map_cong) simp_all
  then show ?thesis
    unfolding finite_pairs_def gated_triples_def
    by (intro arg_cong[where f = concat] map_cong) simp_all
qed

lemma gated_triples_empty:
  "predicted = [] \<or> clusters = [] \<Longrightarrow> gated_triples max_d predicted clusters = []"
  by (auto simp: gated_triples_def)

lemma assign_greedy:
  "assign max_d predicted clusters =
     (greedy_spec max_d predicted clusters,
      filter (\<lambda>t. t \<notin> fst ` set (greedy_spec max_d predicted clusters)) [0..<length predicted],
      filter (\<lambda>c. c \<notin> snd ` set (greedy_spec max_d predicted clusters)) [0..<length clusters])"
proof -
  consider (a) "predicted = []" | (b) "predicted \<noteq> []" "clusters = []"
    | (c) "predicted \<noteq> []" "clusters \<noteq> []" by blast
  then show ?thesis
  proof cases
    case a
    then show ?thesis
      by (simp add: assign_def greedy_spec_def gated_triples_empty)
  next
    case b
    then show ?thesis
      by (simp add: assign_def greedy_spec_def gated_triples_empty)
  next
    case c
    then show ?thesis
      by (simp add: assign_def Let_def greedy_spec_def finite_pairs_cost_matrix
          greedy_walk_accept[where ms = "[]"])
  qed
qed

text \<open>
  C5. The matches returned by \<^verbatim>\<open>_assign\<close> are those of the greedy procedure: all triples
  \<open>(cost, t, k)\<close> with \<open>cost \<le> max_match_distance_mm\<close>, sorted ascending in the lexicographic
  order of \<open>(cost, t, k)\<close>, walked in order, a pair being accepted exactly when neither its
  track nor its cluster is matched already; the unmatched tracks and clusters are the
  remaining indices in ascending order.
\<close>

theorem C5_assign_is_greedy:
  "fst (assign max_d predicted clusters)
     = greedy_accept (sort (gated_triples max_d predicted clusters)) []
   \<and> sorted (sort (gated_triples max_d predicted clusters))
   \<and> set (sort (gated_triples max_d predicted clusters)) = set (gated_triples max_d predicted clusters)
   \<and> length (sort (gated_triples max_d predicted clusters)) = length (gated_triples max_d predicted clusters)
   \<and> fst (snd (assign max_d predicted clusters))
       = filter (\<lambda>t. t \<notin> fst ` set (fst (assign max_d predicted clusters))) [0..<length predicted]
   \<and> snd (snd (assign max_d predicted clusters))
       = filter (\<lambda>k. k \<notin> snd ` set (fst (assign max_d predicted clusters))) [0..<length clusters]"
  by (simp add: assign_greedy greedy_spec_def)

theorem C5_assign_is_greedy_witness:
  "fst (assign 800 [point_at 0 0, point_at 10 0] [cluster_at 10 0, cluster_at 0 0]) = [(0, 1), (1, 0)]
   \<and> sort (gated_triples 800 [point_at 0 0, point_at 10 0] [cluster_at 10 0, cluster_at 0 0])
       = [(0, 0, 1), (0, 1, 0), (10, 0, 0), (10, 1, 1)]"
proof -
  have "sqrt 100 = 10" by (rule real_sqrt_unique) simp_all
  then have s: "sort (gated_triples 800 [point_at 0 0, point_at 10 0] [cluster_at 10 0, cluster_at 0 0])
       = [(0, 0, 1), (0, 1, 0), (10, 0, 0), (10, 1, 1)]"
    by (simp add: gated_triples_def cluster_at_def point_at_def upt_conv_Cons)
  from C5_assign_is_greedy[of 800 "[point_at 0 0, point_at 10 0]" "[cluster_at 10 0, cluster_at 0 0]"]
  show ?thesis unfolding s by simp
qed

lemma greedy_accept_props:
  assumes "distinct (map fst ms)" "distinct (map snd ms)"
    and "\<forall>(t, k) \<in> set ms. t < n \<and> k < m"
    and "\<forall>(d, t, k) \<in> set ps. t < n \<and> k < m"
  shows "distinct (map fst (greedy_accept ps ms)) \<and> distinct (map snd (greedy_accept ps ms))
         \<and> (\<forall>(t, k) \<in> set (greedy_accept ps ms). t < n \<and> k < m)"
  using assms
proof (induction ps ms rule: greedy_accept.induct)
  case (1 ms)
  then show ?case by simp
next
  case (2 d t k ps ms)
  have ps: "\<forall>(d, t, k) \<in> set ps. t < n \<and> k < m"
    using "2.prems"(4) by simp
  have tk: "t < n" "k < m" using "2.prems"(4) by simp_all
  show ?case
  proof (cases "t \<notin> fst ` set ms \<and> k \<notin> snd ` set ms")
    case True
    have eq: "greedy_accept ((d, t, k) # ps) ms = greedy_accept ps (ms @ [(t, k)])"
      using True by simp
    have "distinct (map fst (ms @ [(t, k)]))" "distinct (map snd (ms @ [(t, k)]))"
      using True "2.prems"(1,2) by simp_all
    moreover have "\<forall>(t, k) \<in> set (ms @ [(t, k)]). t < n \<and> k < m"
      using "2.prems"(3) tk by simp
    ultimately show ?thesis
      unfolding eq using ps by (rule "2.IH"(1)[OF True])
  next
    case False
    have eq: "greedy_accept ((d, t, k) # ps) ms = greedy_accept ps ms"
      using False by auto
    show ?thesis
      unfolding eq using "2.prems"(1-3) ps by (rule "2.IH"(2)[OF False])
  qed
qed

lemma gated_triples_range:
  "\<forall>(d, t, k) \<in> set (gated_triples max_d predicted clusters).
     t < length predicted \<and> k < length clusters"
  by (auto simp: gated_triples_def)

lemma greedy_spec_props:
  "distinct (map fst (greedy_spec max_d predicted clusters))"
  "distinct (map snd (greedy_spec max_d predicted clusters))"
  "\<forall>(t, k) \<in> set (greedy_spec max_d predicted clusters). t < length predicted \<and> k < length clusters"
proof -
  have "\<forall>(d, t, k) \<in> set (sort (gated_triples max_d predicted clusters)).
          t < length predicted \<and> k < length clusters"
    using gated_triples_range[of max_d predicted clusters] by simp
  from greedy_accept_props[of "[]", OF _ _ _ this]
  show "distinct (map fst (greedy_spec max_d predicted clusters))"
    "distinct (map snd (greedy_spec max_d predicted clusters))"
    "\<forall>(t, k) \<in> set (greedy_spec max_d predicted clusters). t < length predicted \<and> k < length clusters"
    by (simp_all add: greedy_spec_def)
qed

lemma length_apply_match [simp]: "length (apply_match cl mc m ts) = length ts"
  by (cases m) (simp add: apply_match_def)

lemma length_fold_apply_match [simp]:
  "length (fold (apply_match cl mc) ms ts) = length ts"
  by (induction ms arbitrary: ts) simp_all

lemma length_mark_missing [simp]: "length (mark_missing u ts) = length ts"
  by (simp add: mark_missing_def)

lemma length_fold_mark_missing [simp]:
  "length (fold mark_missing us ts) = length ts"
  by (induction us arbitrary: ts) simp_all

lemma fold_apply_match_nth:
  assumes "distinct (map fst ms)" and "j < length ts"
  shows "fold (apply_match cl mc) ms ts ! j =
           (case map_of ms j of None \<Rightarrow> ts ! j | Some k \<Rightarrow> matched_track mc (ts ! j) (cl ! k))"
  using assms
proof (induction ms arbitrary: ts)
  case Nil
  then show ?case by simp
next
  case (Cons m ms)
  obtain i k where m: "m = (i, k)" by (cases m)
  let ?ts = "ts[i := matched_track mc (ts ! i) (cl ! k)]"
  have step: "fold (apply_match cl mc) (m # ms) ts = fold (apply_match cl mc) ms ?ts"
    by (simp add: m apply_match_def)
  have d: "distinct (map fst ms)" and i: "i \<notin> fst ` set ms" using Cons.prems(1) m by auto
  have IH: "fold (apply_match cl mc) ms ?ts ! j =
              (case map_of ms j of None \<Rightarrow> ?ts ! j | Some k \<Rightarrow> matched_track mc (?ts ! j) (cl ! k))"
    using Cons.IH[OF d, of ?ts] Cons.prems(2) by simp
  show ?case
  proof (cases "j = i")
    case True
    then have "map_of ms j = None" using i by (simp add: map_of_eq_None_iff)
    then show ?thesis unfolding step using IH True m Cons.prems(2) by simp
  next
    case False
    then have "?ts ! j = ts ! j" by simp
    moreover have "map_of (m # ms) j = map_of ms j" using False m by simp
    ultimately show ?thesis unfolding step using IH by (simp split: option.splits)
  qed
qed

lemma fold_mark_missing_nth:
  assumes "distinct us" and "j < length ts"
  shows "fold mark_missing us ts ! j = (if j \<in> set us then aged_track (ts ! j) else ts ! j)"
  using assms
proof (induction us arbitrary: ts)
  case Nil
  then show ?case by simp
next
  case (Cons u us)
  let ?ts = "ts[u := aged_track (ts ! u)]"
  have step: "fold mark_missing (u # us) ts = fold mark_missing us ?ts"
    by (simp add: mark_missing_def)
  have IH: "fold mark_missing us ?ts ! j =
      (if j \<in> set us then aged_track (?ts ! j) else ?ts ! j)"
    using Cons.IH[of ?ts] Cons.prems by simp
  show ?case
  proof (cases "j = u")
    case True
    then show ?thesis unfolding step using IH Cons.prems by simp
  next
    case False
    then show ?thesis unfolding step using IH by simp
  qed
qed

lemma fold_spawn:
  "fold (spawn cl mc) us (ts, nid) =
     (ts @ map (\<lambda>n. new_track mc (nid + int n) (cl ! (us ! n))) [0..<length us],
      nid + int (length us))"
proof (induction us arbitrary: ts nid)
  case Nil
  then show ?case by simp
next
  case (Cons u us)
  have "map (\<lambda>n. new_track mc (nid + int n) (cl ! ((u # us) ! n))) [0..<length (u # us)]
        = new_track mc nid (cl ! u)
          # map (\<lambda>n. new_track mc (nid + 1 + int n) (cl ! (us ! n))) [0..<length us]"
    by (simp add: upt_conv_Cons map_Suc_upt[symmetric] add.assoc del: upt_Suc)
  then show ?case using Cons.IH[of "ts @ [new_track mc nid (cl ! u)]" "nid + 1"]
    by (simp add: spawn_def)
qed

lemma tracker_assign_eq:
  "tracker_assign s cl =
     (greedy_spec (max_match_dist s) (map predict (tracks s)) cl,
      filter (\<lambda>t. t \<notin> fst ` set (greedy_spec (max_match_dist s) (map predict (tracks s)) cl))
        [0..<length (tracks s)],
      filter (\<lambda>c. c \<notin> snd ` set (greedy_spec (max_match_dist s) (map predict (tracks s)) cl))
        [0..<length cl])"
  by (simp add: tracker_assign_def assign_greedy)

lemma tracker_assign_props:
  "distinct (map fst (fst (tracker_assign s cl)))"
  "distinct (map snd (fst (tracker_assign s cl)))"
  "(j, k) \<in> set (fst (tracker_assign s cl)) \<Longrightarrow> j < length (tracks s) \<and> k < length cl"
  "set (fst (snd (tracker_assign s cl))) \<subseteq> {..<length (tracks s)}"
  "set (snd (snd (tracker_assign s cl))) \<subseteq> {..<length cl}"
  using greedy_spec_props[of "max_match_dist s" "map predict (tracks s)" cl]
  by (auto simp: tracker_assign_eq)

lemma advance_tracks_eq:
  "advance_tracks s cl =
     (map (stepped_track s cl) [0..<length (tracks s)] @ spawned_tracks s cl,
      next_id s + int (length (snd (snd (tracker_assign s cl)))))"
proof -
  obtain M UT UC where a: "tracker_assign s cl = (M, UT, UC)" by (cases "tracker_assign s cl")
  have M: "distinct (map fst M)" using tracker_assign_props(1)[of s cl] a by simp
  have UT: "UT = filter (\<lambda>t. t \<notin> fst ` set M) [0..<length (tracks s)]"
    using a by (auto simp: tracker_assign_eq)
  let ?ts1 = "fold (apply_match cl (min_confirm s)) M (tracks s)"
  let ?ts2 = "fold mark_missing UT ?ts1"
  have "?ts2 = map (stepped_track s cl) [0..<length (tracks s)]"
  proof (rule nth_equalityI)
    show "length ?ts2 = length (map (stepped_track s cl) [0..<length (tracks s)])" by simp
  next
    fix j assume "j < length ?ts2"
    then have j: "j < length (tracks s)" by simp
    have dUT: "distinct UT" using UT by simp
    have mem: "j \<in> set UT \<longleftrightarrow> map_of M j = None"
      using j UT by (simp add: map_of_eq_None_iff)
    have "?ts2 ! j = (if j \<in> set UT then aged_track (?ts1 ! j) else ?ts1 ! j)"
      using fold_mark_missing_nth[OF dUT, of j ?ts1] j by simp
    also have "?ts1 ! j = (case map_of M j of None \<Rightarrow> tracks s ! j
                           | Some k \<Rightarrow> matched_track (min_confirm s) (tracks s ! j) (cl ! k))"
      using fold_apply_match_nth[OF M j] .
    finally show "?ts2 ! j = map (stepped_track s cl) [0..<length (tracks s)] ! j"
      using j mem a by (auto simp: stepped_track_def split: option.splits)
  qed
  then show ?thesis
    using a by (simp add: advance_tracks_def Let_def fold_spawn spawned_tracks_def)
qed

lemma tracks_update_eq:
  "tracks (fst (tracker_update s cl)) =
     filter (\<lambda>t. missing_frames t \<le> max_missing s)
       (map (stepped_track s cl) [0..<length (tracks s)] @ spawned_tracks s cl)"
  by (simp add: tracker_update_def advance_tracks_eq Let_def)

lemma next_id_update_eq:
  "next_id (fst (tracker_update s cl)) = next_id s + int (length (spawned_tracks s cl))"
  by (simp add: tracker_update_def advance_tracks_eq Let_def spawned_tracks_def)

lemma config_update [simp]:
  "max_match_dist (fst (tracker_update s cl)) = max_match_dist s"
  "max_missing (fst (tracker_update s cl)) = max_missing s"
  "min_confirm (fst (tracker_update s cl)) = min_confirm s"
  by (simp_all add: tracker_update_def advance_tracks_eq Let_def)

lemma objects_update_eq:
  "snd (tracker_update s cl) =
     map to_object (filter (\<lambda>t. confirmed t \<and> missing_frames t = 0)
       (tracks (fst (tracker_update s cl))))"
  by (simp add: tracker_update_def advance_tracks_eq Let_def)

lemma track_id_matched [simp]: "track_id (matched_track mc t c) = track_id t"
  by (simp add: matched_track_def Let_def)

lemma track_id_aged [simp]: "track_id (aged_track t) = track_id t"
  by (simp add: aged_track_def)

lemma track_id_stepped [simp]: "track_id (stepped_track s cl j) = track_id (tracks s ! j)"
  by (simp add: stepped_track_def split: option.splits)

lemma map_track_id_stepped:
  "map track_id (map (stepped_track s cl) [0..<length (tracks s)]) = map track_id (tracks s)"
  by (rule nth_equalityI) simp_all

lemma map_track_id_spawned:
  "map track_id (spawned_tracks s cl) =
     map (\<lambda>n. next_id s + int n) [0..<length (spawned_tracks s cl)]"
  by (simp add: spawned_tracks_def Let_def new_track_def)

lemma missing_frames_stepped:
  assumes "j < length (tracks s)" and "0 \<le> missing_frames (tracks s ! j)"
  shows "missing_frames (stepped_track s cl j) = 0 \<longleftrightarrow> j \<in> fst ` set (fst (tracker_assign s cl))"
proof (cases "map_of (fst (tracker_assign s cl)) j")
  case None
  then have "j \<notin> fst ` set (fst (tracker_assign s cl))" by (simp add: map_of_eq_None_iff)
  with None assms show ?thesis by (simp add: stepped_track_def aged_track_def)
next
  case (Some k)
  then have "(j, k) \<in> set (fst (tracker_assign s cl))" by (rule map_of_SomeD)
  then have "j \<in> fst ` set (fst (tracker_assign s cl))" by force
  with Some show ?thesis by (simp add: stepped_track_def matched_track_def Let_def)
qed

lemma missing_frames_spawned:
  "t \<in> set (spawned_tracks s cl) \<Longrightarrow> missing_frames t = 0"
  by (auto simp: spawned_tracks_def Let_def new_track_def)

lemma missing_frames_stepped_nonneg:
  assumes "0 \<le> missing_frames (tracks s ! j)"
  shows "0 \<le> missing_frames (stepped_track s cl j)"
  using assms by (simp add: stepped_track_def aged_track_def matched_track_def Let_def split: option.splits)

lemma tracker_inv_init: "tracker_inv (ObjectTracker_init d m c)"
  by (simp add: tracker_inv_def ObjectTracker_init_def)

lemma distinct_ids_advance:
  assumes "tracker_inv s"
  shows "distinct (map track_id (map (stepped_track s cl) [0..<length (tracks s)] @ spawned_tracks s cl))"
proof -
  have "distinct (map (\<lambda>n. next_id s + int n) [0..<length (spawned_tracks s cl)])"
    by (simp add: distinct_map inj_on_def)
  moreover have "set (map track_id (tracks s)) \<inter>
      set (map (\<lambda>n. next_id s + int n) [0..<length (spawned_tracks s cl)]) = {}"
    using assms by (fastforce simp: tracker_inv_def)
  ultimately show ?thesis
    using assms unfolding map_append map_track_id_stepped map_track_id_spawned
    by (simp add: tracker_inv_def)
qed

lemma tracker_inv_update:
  assumes "tracker_inv s"
  shows "tracker_inv (fst (tracker_update s cl))"
proof -
  let ?all = "map (stepped_track s cl) [0..<length (tracks s)] @ spawned_tracks s cl"
  have d: "distinct (map track_id (filter (\<lambda>t. missing_frames t \<le> max_missing s) ?all))"
    using distinct_ids_advance[OF assms, of cl] by (rule distinct_map_filter)
  have props: "1 \<le> track_id t \<and> track_id t < next_id s + int (length (spawned_tracks s cl))
        \<and> 0 \<le> missing_frames t" if "t \<in> set ?all" for t
  proof -
    from that consider (old) j where "j < length (tracks s)" "t = stepped_track s cl j"
      | (new) "t \<in> set (spawned_tracks s cl)" by auto
    then show ?thesis
    proof cases
      case old
      then have "tracks s ! j \<in> set (tracks s)" by simp
      with assms have o: "1 \<le> track_id (tracks s ! j)" "track_id (tracks s ! j) < next_id s"
        "0 \<le> missing_frames (tracks s ! j)"
        by (simp_all add: tracker_inv_def)
      with old missing_frames_stepped_nonneg[OF o(3), of cl] show ?thesis by simp
    next
      case new
      then obtain n where n: "n < length (spawned_tracks s cl)" "t = spawned_tracks s cl ! n"
        by (auto simp: in_set_conv_nth)
      then have "track_id t = map track_id (spawned_tracks s cl) ! n" by simp
      also have "\<dots> = next_id s + int n"
        unfolding map_track_id_spawned using n(1) by simp
      finally have "track_id t = next_id s + int n" .
      with n(1) assms new missing_frames_spawned[OF new] show ?thesis
        by (simp add: tracker_inv_def)
    qed
  qed
  have "\<forall>t \<in> set (filter (\<lambda>t. missing_frames t \<le> max_missing s) ?all).
      1 \<le> track_id t \<and> track_id t < next_id s + int (length (spawned_tracks s cl))
      \<and> 0 \<le> missing_frames t"
  proof
    fix t assume "t \<in> set (filter (\<lambda>t. missing_frames t \<le> max_missing s) ?all)"
    then have "t \<in> set ?all" by auto
    then show "1 \<le> track_id t \<and> track_id t < next_id s + int (length (spawned_tracks s cl))
      \<and> 0 \<le> missing_frames t" by (rule props)
  qed
  moreover have "1 \<le> next_id s + int (length (spawned_tracks s cl))"
    using assms by (simp add: tracker_inv_def)
  ultimately show ?thesis
    unfolding tracker_inv_def tracks_update_eq next_id_update_eq using d by blast
qed

lemma created_tracks_eq: "created_tracks s cl = spawned_tracks s cl"
  by (simp add: created_tracks_def advance_tracks_eq)

lemma updated_track_by_id:
  assumes inv: "tracker_inv s" and j: "j < length (tracks s)"
    and t': "t' \<in> set (tracks (fst (tracker_update s cl)))"
    and id: "track_id t' = track_id (tracks s ! j)"
  shows "t' = stepped_track s cl j"
proof -
  from t' have "t' \<in> set (map (stepped_track s cl) [0..<length (tracks s)]) \<or>
      t' \<in> set (spawned_tracks s cl)"
    unfolding tracks_update_eq by auto
  then show ?thesis
  proof
    assume "t' \<in> set (map (stepped_track s cl) [0..<length (tracks s)])"
    then obtain i where i: "i < length (tracks s)" "t' = stepped_track s cl i" by auto
    then have "map track_id (tracks s) ! i = map track_id (tracks s) ! j"
      using id j by simp
    moreover have "distinct (map track_id (tracks s))" using inv by (simp add: tracker_inv_def)
    ultimately have "i = j"
      using i(1) j nth_eq_iff_index_eq[of "map track_id (tracks s)" i j] by simp
    with i show ?thesis by simp
  next
    assume new: "t' \<in> set (spawned_tracks s cl)"
    then obtain n where n: "n < length (spawned_tracks s cl)" "t' = spawned_tracks s cl ! n"
      by (auto simp: in_set_conv_nth)
    then have "track_id t' = map track_id (spawned_tracks s cl) ! n" by simp
    also have "\<dots> = next_id s + int n"
      unfolding map_track_id_spawned using n(1) by simp
    finally have "next_id s \<le> track_id t'" by simp
    moreover have "track_id (tracks s ! j) < next_id s"
      using inv j by (simp add: tracker_inv_def)
    ultimately show ?thesis using id by simp
  qed
qed

lemma new_track_by_id:
  assumes t': "t' \<in> set (tracks (fst (tracker_update s cl)))"
    and id: "track_id t' \<notin> track_id ` set (tracks s)"
  shows "t' \<in> set (spawned_tracks s cl)"
proof -
  from t' have "t' \<in> set (map (stepped_track s cl) [0..<length (tracks s)]) \<or>
      t' \<in> set (spawned_tracks s cl)"
    unfolding tracks_update_eq by auto
  then show ?thesis
  proof
    assume "t' \<in> set (map (stepped_track s cl) [0..<length (tracks s)])"
    then obtain i where i: "i < length (tracks s)" "t' = stepped_track s cl i" by auto
    then have "track_id t' = track_id (tracks s ! i)" by simp
    with i(1) id show ?thesis by (metis imageI nth_mem)
  qed
qed

text \<open>
  C2 (as amended). In a tracker state reached from \<^verbatim>\<open>__init__\<close>, after \<^verbatim>\<open>update\<close>: a
  track that existed before the update (recognised by its id) has \<open>missing_frames = 0\<close> if
  and only if its index is among the matches of this update; a track created by this update
  has \<open>missing_frames = 0\<close>.
\<close>

theorem C2_missing_frames_iff_matched:
  assumes "tracker_inv s" and "t' \<in> set (tracks (fst (tracker_update s cl)))"
  shows "(\<forall>j < length (tracks s). track_id t' = track_id (tracks s ! j) \<longrightarrow>
            (missing_frames t' = 0 \<longleftrightarrow> j \<in> fst ` set (fst (tracker_assign s cl))))
         \<and> (track_id t' \<notin> track_id ` set (tracks s) \<longrightarrow> missing_frames t' = 0)"
proof (intro conjI allI impI)
  fix j assume j: "j < length (tracks s)" and id: "track_id t' = track_id (tracks s ! j)"
  have "t' = stepped_track s cl j" using assms(1) j assms(2) id by (rule updated_track_by_id)
  moreover have "0 \<le> missing_frames (tracks s ! j)"
    using assms(1) j by (simp add: tracker_inv_def)
  ultimately show "missing_frames t' = 0 \<longleftrightarrow> j \<in> fst ` set (fst (tracker_assign s cl))"
    using missing_frames_stepped[OF j] by simp
next
  assume "track_id t' \<notin> track_id ` set (tracks s)"
  with assms(2) have "t' \<in> set (spawned_tracks s cl)" by (rule new_track_by_id)
  then show "missing_frames t' = 0" by (rule missing_frames_spawned)
qed

theorem C2_missing_frames_iff_matched_witness:
  "tracker_inv tracker1
   \<and> hd (tracks (fst (tracker_update tracker1 [cluster_at 1100 1000])))
        \<in> set (tracks (fst (tracker_update tracker1 [cluster_at 1100 1000])))
   \<and> track_id (hd (tracks (fst (tracker_update tracker1 [cluster_at 1100 1000]))))
        = track_id (tracks tracker1 ! 0)
   \<and> fst (tracker_assign tracker1 [cluster_at 1100 1000]) = [(0, 0)]
   \<and> missing_frames (hd (tracks (fst (tracker_update tracker1 [cluster_at 1100 1000])))) = 0"
proof -
  have sq: "sqrt 10000 = 100" by (rule real_sqrt_unique) simp_all
  have inv: "tracker_inv tracker1" by (simp add: tracker_inv_def tracker1_def)
  have a: "fst (tracker_assign tracker1 [cluster_at 1100 1000]) = [(0, 0)]"
    by (simp add: tracker_eval tracker1_def sq)
  have t: "tracks (fst (tracker_update tracker1 [cluster_at 1100 1000]))
    = [\<lparr> track_id = 1, t_centroid = \<lparr> px = 1100, py = 1000 \<rparr>,
                 t_velocity = \<lparr> px = 100, py = 0 \<rparr>, t_bounding_radius_mm = 100,
                 t_points = [], age = 2, missing_frames = 0, confirmed = True \<rparr>]"
    by (simp add: tracker_eval tracker1_def sq)
  have m: "hd (tracks (fst (tracker_update tracker1 [cluster_at 1100 1000])))
        \<in> set (tracks (fst (tracker_update tracker1 [cluster_at 1100 1000])))"
    unfolding t by simp
  have i: "track_id (hd (tracks (fst (tracker_update tracker1 [cluster_at 1100 1000]))))
        = track_id (tracks tracker1 ! 0)"
    unfolding t by (simp add: tracker1_def)
  have l: "0 < length (tracks tracker1)" by (simp add: tracker1_def)
  from C2_missing_frames_iff_matched[OF inv m] l i
  have "missing_frames (hd (tracks (fst (tracker_update tracker1 [cluster_at 1100 1000])))) = 0
          \<longleftrightarrow> 0 \<in> fst ` set (fst (tracker_assign tracker1 [cluster_at 1100 1000]))"
    by blast
  then have "missing_frames (hd (tracks (fst (tracker_update tracker1 [cluster_at 1100 1000])))) = 0"
    unfolding a by simp
  with inv m i a show ?thesis by simp
qed

text \<open>
  The claim as stated fails for a track created by the update: it has
  \<open>missing_frames = 0\<close> and was not matched (its cluster was an unmatched cluster).
\<close>

theorem C2_counterexample:
  "fst (tracker_assign (ObjectTracker_init 800 10 1) [cluster_at 1000 1000]) = []
   \<and> map missing_frames (tracks (fst (tracker_update (ObjectTracker_init 800 10 1)
          [cluster_at 1000 1000]))) = [0]"
  by (simp add: tracker_eval ObjectTracker_init_def)

lemma stepped_matched:
  assumes "(j, k) \<in> set (fst (tracker_assign s cl))"
  shows "stepped_track s cl j = matched_track (min_confirm s) (tracks s ! j) (cl ! k)"
proof -
  have "map_of (fst (tracker_assign s cl)) j = Some k"
    using assms tracker_assign_props(1)[of s cl] by (rule_tac map_of_is_SomeI)
  then show ?thesis by (simp add: stepped_track_def)
qed

lemma matched_track_motion:
  "t_velocity (matched_track mc t c) =
     \<lparr> px = px (centroid c) - px (t_centroid t), py = py (centroid c) - py (t_centroid t) \<rparr>"
  "t_centroid (matched_track mc t c) = centroid c"
  "missing_frames (matched_track mc t c) = 0"
  by (simp_all add: matched_track_def Let_def)

text \<open>
  C6. In a tracker state reached from \<^verbatim>\<open>__init__\<close>, for every pair (track \<open>j\<close>, cluster
  \<open>k\<close>) matched by \<^verbatim>\<open>update\<close>: afterwards the track with that id, and the object
  returned for it, has as velocity the cluster centroid minus the centroid the track had
  before the update, componentwise, and as centroid the cluster centroid; the track is
  still in the list when \<open>max_missing_frames \<ge> 0\<close>.
\<close>

theorem C6_velocity_of_matched_track:
  assumes "tracker_inv s" and "(j, k) \<in> set (fst (tracker_assign s cl))"
  shows "(\<forall>t' \<in> set (tracks (fst (tracker_update s cl))).
            track_id t' = track_id (tracks s ! j) \<longrightarrow>
              t_velocity t' = \<lparr> px = px (centroid (cl ! k)) - px (t_centroid (tracks s ! j)),
                                py = py (centroid (cl ! k)) - py (t_centroid (tracks s ! j)) \<rparr>
              \<and> t_centroid t' = centroid (cl ! k))
         \<and> (\<forall>ob \<in> set (snd (tracker_update s cl)).
            object_id ob = track_id (tracks s ! j) \<longrightarrow>
              obj_velocity ob = \<lparr> px = px (centroid (cl ! k)) - px (t_centroid (tracks s ! j)),
                                  py = py (centroid (cl ! k)) - py (t_centroid (tracks s ! j)) \<rparr>
              \<and> obj_centroid ob = centroid (cl ! k))
         \<and> (0 \<le> max_missing s \<longrightarrow>
              (\<exists>t' \<in> set (tracks (fst (tracker_update s cl))).
                 track_id t' = track_id (tracks s ! j)))"
proof -
  let ?m = "matched_track (min_confirm s) (tracks s ! j) (cl ! k)"
  have j: "j < length (tracks s)" using tracker_assign_props(3)[OF assms(2)] by simp
  have st: "stepped_track s cl j = ?m" using assms(2) by (rule stepped_matched)
  have tr: "t' = ?m" if "t' \<in> set (tracks (fst (tracker_update s cl)))"
    "track_id t' = track_id (tracks s ! j)" for t'
    using updated_track_by_id[OF assms(1) j that] st by simp
  have one: "\<forall>t' \<in> set (tracks (fst (tracker_update s cl))).
            track_id t' = track_id (tracks s ! j) \<longrightarrow>
              t_velocity t' = \<lparr> px = px (centroid (cl ! k)) - px (t_centroid (tracks s ! j)),
                                py = py (centroid (cl ! k)) - py (t_centroid (tracks s ! j)) \<rparr>
              \<and> t_centroid t' = centroid (cl ! k)"
  proof (intro ballI impI)
    fix t' assume "t' \<in> set (tracks (fst (tracker_update s cl)))"
      "track_id t' = track_id (tracks s ! j)"
    then have "t' = ?m" by (rule tr)
    then show "t_velocity t' = \<lparr> px = px (centroid (cl ! k)) - px (t_centroid (tracks s ! j)),
                                py = py (centroid (cl ! k)) - py (t_centroid (tracks s ! j)) \<rparr>
              \<and> t_centroid t' = centroid (cl ! k)"
      by (simp add: matched_track_motion)
  qed
  have two: "\<forall>ob \<in> set (snd (tracker_update s cl)).
            object_id ob = track_id (tracks s ! j) \<longrightarrow>
              obj_velocity ob = \<lparr> px = px (centroid (cl ! k)) - px (t_centroid (tracks s ! j)),
                                  py = py (centroid (cl ! k)) - py (t_centroid (tracks s ! j)) \<rparr>
              \<and> obj_centroid ob = centroid (cl ! k)"
  proof (intro ballI impI)
    fix ob assume ob: "ob \<in> set (snd (tracker_update s cl))"
      and id: "object_id ob = track_id (tracks s ! j)"
    from ob obtain t' where t': "t' \<in> set (tracks (fst (tracker_update s cl)))" "ob = to_object t'"
      unfolding objects_update_eq by auto
    then have "track_id t' = track_id (tracks s ! j)" using id by (simp add: to_object_def)
    with t'(1) have "t' = ?m" by (rule tr)
    with t'(2) show "obj_velocity ob = \<lparr> px = px (centroid (cl ! k)) - px (t_centroid (tracks s ! j)),
                                  py = py (centroid (cl ! k)) - py (t_centroid (tracks s ! j)) \<rparr>
              \<and> obj_centroid ob = centroid (cl ! k)"
      by (simp add: to_object_def matched_track_motion)
  qed
  have three: "0 \<le> max_missing s \<longrightarrow>
              (\<exists>t' \<in> set (tracks (fst (tracker_update s cl))).
                 track_id t' = track_id (tracks s ! j))"
  proof
    assume mm: "0 \<le> max_missing s"
    have "stepped_track s cl j \<in> set (map (stepped_track s cl) [0..<length (tracks s)])"
      using j by simp
    moreover have "missing_frames (stepped_track s cl j) \<le> max_missing s"
      using mm st by (simp add: matched_track_motion)
    ultimately have "stepped_track s cl j \<in> set (tracks (fst (tracker_update s cl)))"
      unfolding tracks_update_eq by simp
    then show "\<exists>t' \<in> set (tracks (fst (tracker_update s cl))).
                 track_id t' = track_id (tracks s ! j)"
      by (rule_tac x = "stepped_track s cl j" in bexI) simp_all
  qed
  from one two three show ?thesis by blast
qed

theorem C6_velocity_of_matched_track_witness:
  "tracker_inv tracker1
   \<and> (0, 0) \<in> set (fst (tracker_assign tracker1 [cluster_at 1100 1000]))
   \<and> t_velocity (hd (tracks (fst (tracker_update tracker1 [cluster_at 1100 1000]))))
       = \<lparr> px = 100, py = 0 \<rparr>
   \<and> t_centroid (hd (tracks (fst (tracker_update tracker1 [cluster_at 1100 1000]))))
       = \<lparr> px = 1100, py = 1000 \<rparr>"
proof -
  have sq: "sqrt 10000 = 100" by (rule real_sqrt_unique) simp_all
  have inv: "tracker_inv tracker1" by (simp add: tracker_inv_def tracker1_def)
  have a: "(0, 0) \<in> set (fst (tracker_assign tracker1 [cluster_at 1100 1000]))"
    by (simp add: tracker_eval tracker1_def sq)
  have t: "tracks (fst (tracker_update tracker1 [cluster_at 1100 1000]))
    = [\<lparr> track_id = 1, t_centroid = \<lparr> px = 1100, py = 1000 \<rparr>,
                 t_velocity = \<lparr> px = 100, py = 0 \<rparr>, t_bounding_radius_mm = 100,
                 t_points = [], age = 2, missing_frames = 0, confirmed = True \<rparr>]"
    by (simp add: tracker_eval tracker1_def sq)
  have m: "hd (tracks (fst (tracker_update tracker1 [cluster_at 1100 1000])))
        \<in> set (tracks (fst (tracker_update tracker1 [cluster_at 1100 1000])))"
    unfolding t by simp
  have i: "track_id (hd (tracks (fst (tracker_update tracker1 [cluster_at 1100 1000]))))
        = track_id (tracks tracker1 ! 0)"
    unfolding t by (simp add: tracker1_def)
  from C6_velocity_of_matched_track[OF inv a] m i
  have "t_velocity (hd (tracks (fst (tracker_update tracker1 [cluster_at 1100 1000]))))
       = \<lparr> px = px (centroid ([cluster_at 1100 1000] ! 0)) - px (t_centroid (tracks tracker1 ! 0)),
           py = py (centroid ([cluster_at 1100 1000] ! 0)) - py (t_centroid (tracks tracker1 ! 0)) \<rparr>
     \<and> t_centroid (hd (tracks (fst (tracker_update tracker1 [cluster_at 1100 1000]))))
       = centroid ([cluster_at 1100 1000] ! 0)"
    by blast
  then show ?thesis using inv a by (simp add: tracker1_def cluster_at_def)
qed

lemma ids_after_update:
  "track_id ` set (tracks (fst (tracker_update s cl)))
     \<subseteq> track_id ` set (tracks s) \<union> track_id ` set (spawned_tracks s cl)"
proof
  fix x assume "x \<in> track_id ` set (tracks (fst (tracker_update s cl)))"
  then obtain t where t: "t \<in> set (tracks (fst (tracker_update s cl)))" "x = track_id t" by auto
  from t(1) have "t \<in> set (map (stepped_track s cl) [0..<length (tracks s)]) \<or>
      t \<in> set (spawned_tracks s cl)"
    unfolding tracks_update_eq by auto
  then show "x \<in> track_id ` set (tracks s) \<union> track_id ` set (spawned_tracks s cl)"
  proof
    assume "t \<in> set (map (stepped_track s cl) [0..<length (tracks s)])"
    then obtain i where i: "i < length (tracks s)" "t = stepped_track s cl i" by auto
    then have "x = track_id (tracks s ! i)" using t(2) by simp
    with i(1) show ?thesis by (metis UnI1 imageI nth_mem)
  next
    assume "t \<in> set (spawned_tracks s cl)"
    with t(2) show ?thesis by blast
  qed
qed

lemma emitted_ids_update:
  "object_id ` set (snd (tracker_update s cl)) \<subseteq> track_id ` set (tracks (fst (tracker_update s cl)))"
  unfolding objects_update_eq by (auto simp: to_object_def)

lemma ids_of_run:
  assumes "tracker_inv s"
  shows "map track_id (all_created s cls)
           = map (\<lambda>n. next_id s + int n) [0..<length (all_created s cls)]
         \<and> object_id ` set (all_emitted s cls)
             \<subseteq> track_id ` set (tracks s) \<union> track_id ` set (all_created s cls)"
  using assms
proof (induction cls arbitrary: s)
  case Nil
  then show ?case by simp
next
  case (Cons cl cls)
  let ?s' = "fst (tracker_update s cl)"
  let ?k = "length (spawned_tracks s cl)"
  let ?m = "length (all_created ?s' cls)"
  have inv': "tracker_inv ?s'" using Cons.prems by (rule tracker_inv_update)
  note IH = Cons.IH[OF inv']
  have nid: "next_id ?s' = next_id s + int ?k" by (rule next_id_update_eq)
  have "map track_id (all_created s (cl # cls))
        = map (\<lambda>n. next_id s + int n) [0..<?k] @ map (\<lambda>n. next_id s + int ?k + int n) [0..<?m]"
    using IH nid by (simp add: created_tracks_eq map_track_id_spawned)
  also have "map (\<lambda>n. next_id s + int ?k + int n) [0..<?m]
             = map (\<lambda>n. next_id s + int n) [?k..<?k + ?m]"
    by (rule nth_equalityI) (simp_all add: add.assoc)
  also have "map (\<lambda>n. next_id s + int n) [0..<?k] @ map (\<lambda>n. next_id s + int n) [?k..<?k + ?m]
             = map (\<lambda>n. next_id s + int n) [0..<?k + ?m]"
    by (simp add: upt_add_eq_append[of 0 ?k ?m, simplified] del: upt_Suc)
  finally have one: "map track_id (all_created s (cl # cls))
        = map (\<lambda>n. next_id s + int n) [0..<length (all_created s (cl # cls))]"
    by (simp add: created_tracks_eq)
  have "object_id ` set (all_emitted s (cl # cls))
         \<subseteq> track_id ` set (tracks ?s') \<union> track_id ` set (all_created ?s' cls)"
    using IH emitted_ids_update[of s cl] by auto
  also have "\<dots> \<subseteq> track_id ` set (tracks s) \<union> track_id ` set (spawned_tracks s cl)
               \<union> track_id ` set (all_created ?s' cls)"
    using ids_after_update[of s cl] by blast
  also have "\<dots> = track_id ` set (tracks s) \<union> track_id ` set (all_created s (cl # cls))"
    by (auto simp: created_tracks_eq)
  finally show ?case using one by blast
qed

text \<open>The two updates of the example, evaluated.\<close>

lemma second_update_assign:
  "tracker_assign tracker1 [cluster_at 1100 1000, cluster_at 3000 3000] = ([(0, 0)], [], [1])"
proof -
  have sq: "sqrt 10000 = 100" by (rule real_sqrt_unique) simp_all
  have far: "\<not> sqrt 8000000 \<le> 800"
  proof
    assume "sqrt 8000000 \<le> 800"
    then have "sqrt 8000000 \<le> sqrt (800 * 800)" by simp
    then show False by (simp only: real_sqrt_le_iff)
  qed
  have p: "map predict (tracks tracker1) = [point_at 1000 1000]"
    by (simp add: predict_def tracker1_def point_at_def)
  have mm: "max_match_dist tracker1 = 800" by (simp add: tracker1_def)
  have c: "cost_matrix 800 [point_at 1000 1000] [cluster_at 1100 1000, cluster_at 3000 3000]
             = [[Some 100, None]]"
    by (simp add: cost_matrix_def cost_entry_def point_at_def cluster_at_def sq far Let_def)
  show ?thesis
    unfolding tracker_assign_def p mm
    by (simp add: assign_def c finite_pairs_def upt_conv_Cons Let_def)
qed

lemma second_update_advance:
  "advance_tracks tracker1 [cluster_at 1100 1000, cluster_at 3000 3000]
     = ([\<lparr> track_id = 1, t_centroid = \<lparr> px = 1100, py = 1000 \<rparr>,
           t_velocity = \<lparr> px = 100, py = 0 \<rparr>, t_bounding_radius_mm = 100,
           t_points = [], age = 2, missing_frames = 0, confirmed = True \<rparr>,
         \<lparr> track_id = 2, t_centroid = \<lparr> px = 3000, py = 3000 \<rparr>,
           t_velocity = \<lparr> px = 0, py = 0 \<rparr>, t_bounding_radius_mm = 100,
           t_points = [], age = 1, missing_frames = 0, confirmed = True \<rparr>], 3)"
  unfolding advance_tracks_def second_update_assign
  by (simp add: apply_match_def matched_track_def spawn_def new_track_def
      tracker1_def cluster_at_def Let_def)

lemma first_update:
  "tracker_update (ObjectTracker_init 800 10 1) [cluster_at 1000 1000]
    = (tracker1, [\<lparr> object_id = 1, obj_centroid = \<lparr> px = 1000, py = 1000 \<rparr>,
                 obj_velocity = \<lparr> px = 0, py = 0 \<rparr>, obj_bounding_radius_mm = 100,
                 obj_age = 1, obj_points = [] \<rparr>])"
  by (simp add: tracker_eval ObjectTracker_init_def tracker1_def)

lemma first_update_created:
  "created_tracks (ObjectTracker_init 800 10 1) [cluster_at 1000 1000] = tracks tracker1"
  by (simp add: created_tracks_def tracker_eval ObjectTracker_init_def tracker1_def)

text \<open>
  C4. For every sequence of \<^verbatim>\<open>update\<close> calls on a newly constructed tracker, the ids of
  the tracks created, in creation order, are 1, 2, 3, ...: each is a positive integer, no
  two tracks share an id (so no id is reused, also after a track is retired), and every
  \<open>object_id\<close> returned is the id of a created track.
\<close>

theorem C4_track_ids_unique:
  "map track_id (all_created (ObjectTracker_init d m c) cls)
     = map int [1..<Suc (length (all_created (ObjectTracker_init d m c) cls))]
   \<and> distinct (map track_id (all_created (ObjectTracker_init d m c) cls))
   \<and> object_id ` set (all_emitted (ObjectTracker_init d m c) cls)
       \<subseteq> track_id ` set (all_created (ObjectTracker_init d m c) cls)"
proof -
  let ?s = "ObjectTracker_init d m c"
  let ?n = "length (all_created ?s cls)"
  note r = ids_of_run[OF tracker_inv_init, of d m c cls]
  have nid: "next_id ?s = 1" by (simp add: ObjectTracker_init_def)
  have "map (\<lambda>n. 1 + int n) [0..<?n] = map int [1..<Suc ?n]"
    by (rule nth_equalityI) (simp_all del: upt_Suc)
  with r nid have one: "map track_id (all_created ?s cls) = map int [1..<Suc ?n]" by simp
  have "distinct (map int [1..<Suc ?n])" by (simp add: distinct_map)
  with one have two: "distinct (map track_id (all_created ?s cls))" by simp
  have "tracks ?s = []" by (simp add: ObjectTracker_init_def)
  with r have three: "object_id ` set (all_emitted ?s cls) \<subseteq> track_id ` set (all_created ?s cls)"
    by simp
  from one two three show ?thesis by blast
qed

theorem C4_track_ids_unique_witness:
  "map track_id (all_created (ObjectTracker_init 800 10 1)
       [[cluster_at 1000 1000], [cluster_at 1100 1000, cluster_at 3000 3000]]) = [1, 2]
   \<and> map object_id (all_emitted (ObjectTracker_init 800 10 1)
       [[cluster_at 1000 1000], [cluster_at 1100 1000, cluster_at 3000 3000]]) = [1, 1, 2]"
proof -
  have l: "length (tracks tracker1) = 1" by (simp add: tracker1_def)
  have c2: "length (created_tracks tracker1 [cluster_at 1100 1000, cluster_at 3000 3000]) = 1"
    unfolding created_tracks_def second_update_advance l by simp
  have n: "length (all_created (ObjectTracker_init 800 10 1)
       [[cluster_at 1000 1000], [cluster_at 1100 1000, cluster_at 3000 3000]]) = 2"
    using c2 l by (simp add: first_update first_update_created)
  have e2: "map object_id (snd (tracker_update tracker1 [cluster_at 1100 1000, cluster_at 3000 3000]))
      = [1, 2]"
    unfolding tracker_update_def second_update_advance
    by (simp add: Let_def tracker1_def to_object_def)
  have e: "map object_id (all_emitted (ObjectTracker_init 800 10 1)
       [[cluster_at 1000 1000], [cluster_at 1100 1000, cluster_at 3000 3000]]) = [1, 1, 2]"
    using e2 by (simp add: first_update)
  from C4_track_ids_unique[of 800 10 1 "[[cluster_at 1000 1000], [cluster_at 1100 1000, cluster_at 3000 3000]]"]
  have "map track_id (all_created (ObjectTracker_init 800 10 1)
       [[cluster_at 1000 1000], [cluster_at 1100 1000, cluster_at 3000 3000]]) = map int [1..<Suc 2]"
    unfolding n by blast
  then show ?thesis using e by (simp add: upt_conv_Cons)
qed


end
